theory Spec2Isabelle
  imports Complex_Main
begin

section \<open>5x5 Tic-Tac-Toe with a tabular Q-learning opponent\<close>

text \<open>
  A shallow embedding of \<^verbatim>\<open>Tic-Tac-Toe/Tic_Tac_Toe_5.py\<close>.

  Python lists are HOL lists, Python tuples are the datatype \<open>tuple\<close>, the dictionary
  \<^verbatim>\<open>Q\<close> is a map, cell contents are strings as in the source (\<^verbatim>\<open>' '\<close>,
  \<^verbatim>\<open>'X'\<close>, \<^verbatim>\<open>'O'\<close>). The Q-values and the exploration rate are float64 numbers in
  the source: here a finite float64 number is the real number it denotes, and every
  addition, subtraction and multiplication of the source rounds its exact result to float64
  (\<open>round64\<close>). Exceptions are values of the type \<open>error\<close>.
\<close>

subsection \<open>Float64 arithmetic\<close>

text \<open>Rounding to the nearest integer, a tie going to the even one.\<close>

definition round_even :: "real \<Rightarrow> int" where
  "round_even y =
     (let f = \<lfloor>y\<rfloor>; d = y - of_int f
      in if d < 1/2 then f else if 1/2 < d then f + 1 else if even f then f else f + 1)"

text \<open>The exponent \<open>e\<close> with \<open>2 ^ e \<le> x < 2 ^ (e + 1)\<close>, found by halving or doubling \<open>x\<close>
  at most \<open>n\<close> times.\<close>

fun exponent :: "nat \<Rightarrow> real \<Rightarrow> int" where
  "exponent 0 x = 0"
| "exponent (Suc n) x =
     (if 2 \<le> x then exponent n (x / 2) + 1
      else if x < 1 then exponent n (x * 2) - 1
      else 0)"

text \<open>The exponent of a float64 number: below \<open>2 ^ -1022\<close> the numbers are subnormal and
  share the exponent -1022.\<close>

definition fexp :: "real \<Rightarrow> int" where
  "fexp x = (if \<bar>x\<bar> < 2 powi (- 1022) then - 1022 else exponent 1100 \<bar>x\<bar>)"

text \<open>IEEE 754 binary64 rounding to nearest, ties to even: a significand of 53 bits, so
  the result is a multiple of \<open>2 ^ (e - 52)\<close>. Infinities and NaN are not modelled: a result of
  magnitude \<open>2 ^ 1024\<close> or more, which float64 turns into an infinity, does not come up for
  the numbers of this program (rewards of magnitude 1 at most, a learning rate of 0.1, a
  decaying exploration rate).\<close>

definition round64 :: "real \<Rightarrow> real" where
  "round64 x = of_int (round_even (x / 2 powi (fexp x - 52))) * 2 powi (fexp x - 52)"

definition fadd :: "real \<Rightarrow> real \<Rightarrow> real" where
  "fadd x y = round64 (x + y)"

definition fsub :: "real \<Rightarrow> real \<Rightarrow> real" where
  "fsub x y = round64 (x - y)"

definition fmul :: "real \<Rightarrow> real \<Rightarrow> real" where
  "fmul x y = round64 (x * y)"

subsection \<open>Constants\<close>

definition BOARD_SIZE :: nat where
  "BOARD_SIZE = 5"

text \<open>A decimal literal of the source denotes the float64 number nearest to it.\<close>

definition EXPLORATION_RATE :: real where
  \<comment> \<open>the initial value of the global variable\<close>
  "EXPLORATION_RATE = round64 1.0"

definition EXPLORATION_DECAY :: real where
  "EXPLORATION_DECAY = round64 0.995"

definition LEARNING_RATE :: real where
  "LEARNING_RATE = round64 0.1"

definition DISCOUNT_FACTOR :: real where
  "DISCOUNT_FACTOR = round64 0.9"

definition EPISODES :: nat where
  "EPISODES = 1000"

subsection \<open>Data\<close>

text \<open>The exceptions a lookup of the dictionary, an index into a list or array, and
  \<^verbatim>\<open>np.argmax\<close> of an empty array raise.\<close>

datatype error = KeyError | IndexError | ValueError

type_synonym board = "string list list"

datatype 'a tuple = Tuple (items: "'a list")

type_synonym key = "string tuple tuple"

type_synonym qtable = "key \<rightharpoonup> real list"

text \<open>The board of a new game or episode:
  \<^verbatim>\<open>[[' ' for _ in range(BOARD_SIZE)] for _ in range(BOARD_SIZE)]\<close>.\<close>

definition empty_board :: board where
  "empty_board = replicate BOARD_SIZE (replicate BOARD_SIZE '' '')"

text \<open>Every board the program builds has \<open>BOARD_SIZE\<close> rows of \<open>BOARD_SIZE\<close> cells.\<close>

definition wf_board :: "board \<Rightarrow> bool" where
  "wf_board b \<longleftrightarrow> length b = BOARD_SIZE \<and> list_all (\<lambda>row. length row = BOARD_SIZE) b"

text \<open>\<^verbatim>\<open>board[i][j]\<close> for indices that are not negative; a read out of range raises.\<close>

definition cell :: "board \<Rightarrow> nat \<Rightarrow> nat \<Rightarrow> error + string" where
  "cell b i j =
     (if i < length b then
        (if j < length (b ! i) then Inr (b ! i ! j) else Inl IndexError)
      else Inl IndexError)"

text \<open>\<^verbatim>\<open>board[row][col] = mark\<close>, used after \<open>cell\<close> has read the same position.\<close>

definition set_cell :: "board \<Rightarrow> nat \<Rightarrow> nat \<Rightarrow> string \<Rightarrow> board" where
  "set_cell b i j mark = b[i := (b ! i)[j := mark]]"

subsection \<open>State codec\<close>

definition board_to_tuple :: "board \<Rightarrow> key" where
  "board_to_tuple b = Tuple (map (\<lambda>row. Tuple row) b)"

subsection \<open>Win and draw detection\<close>

text \<open>\<^verbatim>\<open>all(get(j) == player for j in js)\<close>: the generator stops at the first cell that
  differs, and a read that raises ends the evaluation.\<close>

fun all_cells :: "(nat \<Rightarrow> error + string) \<Rightarrow> string \<Rightarrow> nat list \<Rightarrow> error + bool" where
  "all_cells get player [] = Inr True"
| "all_cells get player (j # js) =
     (case get j of
        Inl e \<Rightarrow> Inl e
      | Inr c \<Rightarrow> (if c = player then all_cells get player js else Inr False))"

text \<open>\<^verbatim>\<open>a or b\<close>, where \<open>b\<close> is evaluated only when \<open>a\<close> is false.\<close>

definition or_else :: "error + bool \<Rightarrow> error + bool \<Rightarrow> error + bool" where
  "or_else a b = (case a of Inl e \<Rightarrow> Inl e | Inr t \<Rightarrow> (if t then Inr True else b))"

fun winner_lines :: "board \<Rightarrow> string \<Rightarrow> nat list \<Rightarrow> error + bool" where
  "winner_lines b player [] = Inr False"
| "winner_lines b player (i # rest) =
     (case or_else (all_cells (\<lambda>j. cell b i j) player [0..<BOARD_SIZE])
                   (all_cells (\<lambda>j. cell b j i) player [0..<BOARD_SIZE]) of
        Inl e \<Rightarrow> Inl e
      | Inr t \<Rightarrow> (if t then Inr True else winner_lines b player rest))"

definition is_winner :: "board \<Rightarrow> string \<Rightarrow> error + bool" where
  "is_winner b player =
     (case winner_lines b player [0..<BOARD_SIZE] of
        Inl e \<Rightarrow> Inl e
      | Inr t \<Rightarrow>
          (if t then Inr True
           else (case or_else (all_cells (\<lambda>i. cell b i i) player [0..<BOARD_SIZE])
                              (all_cells (\<lambda>i. cell b i (BOARD_SIZE - i - 1)) player [0..<BOARD_SIZE]) of
                   Inl e \<Rightarrow> Inl e
                 | Inr d \<Rightarrow> (if d then Inr True else Inr False))))"

definition is_draw :: "board \<Rightarrow> bool" where
  "is_draw b = list_all (\<lambda>row. list_all (\<lambda>c. c \<noteq> '' '') row) b"

subsection \<open>The Q-table\<close>

text \<open>Each entry is created by \<^verbatim>\<open>np.zeros\<close> as an array of its own and is never stored
  under a second key, so an update in place of one entry is an update of the map at one key.\<close>

definition initialize_q_table :: "qtable \<Rightarrow> board \<Rightarrow> qtable" where
  "initialize_q_table Q b =
     (let state = board_to_tuple b
      in if Q state = None then Q(state \<mapsto> replicate (BOARD_SIZE * BOARD_SIZE) 0) else Q)"

text \<open>\<^verbatim>\<open>np.argmax\<close> of the numpy library: the index of the first occurrence of the
  maximum, found in one pass from the left; an empty array raises \<^verbatim>\<open>ValueError\<close>.\<close>

fun argmax_scan :: "real list \<Rightarrow> nat \<Rightarrow> real \<Rightarrow> nat \<Rightarrow> nat" where
  "argmax_scan [] i best best_i = best_i"
| "argmax_scan (x # xs) i best best_i =
     (if best < x then argmax_scan xs (Suc i) x i else argmax_scan xs (Suc i) best best_i)"

definition argmax :: "real list \<Rightarrow> error + nat" where
  "argmax v = (case v of [] \<Rightarrow> Inl ValueError | x # xs \<Rightarrow> Inr (argmax_scan xs 1 x 0))"

text \<open>The random numbers one call of \<^verbatim>\<open>choose_action\<close> may consume: the value of
  \<^verbatim>\<open>random.uniform(0, 1)\<close> and the value that
  \<^verbatim>\<open>random.randint(0, BOARD_SIZE * BOARD_SIZE - 1)\<close> returns if it is called.\<close>

record draw =
  uniform :: real
  randint :: nat

definition choose_action :: "qtable \<Rightarrow> key \<Rightarrow> real \<Rightarrow> draw \<Rightarrow> error + nat" where
  "choose_action Q state exploration_rate d =
     (if uniform d < exploration_rate then Inr (randint d)
      else (case Q state of None \<Rightarrow> Inl KeyError | Some v \<Rightarrow> argmax v))"

text \<open>The action is an index that \<^verbatim>\<open>randint\<close> or \<^verbatim>\<open>np.argmax\<close> returned, so it is
  never negative. The reward is an integer of the source (0, 1 or -1), which float64 holds
  exactly. Each operation of lines 107 to 109 rounds: the product first, then the sum or
  the difference.\<close>

definition update_q_table :: "qtable \<Rightarrow> key \<Rightarrow> nat \<Rightarrow> real \<Rightarrow> key \<Rightarrow> error + qtable" where
  "update_q_table Q state action reward next_state =
     (case Q next_state of
        None \<Rightarrow> Inl KeyError
      | Some nv \<Rightarrow>
          (case argmax nv of
             Inl e \<Rightarrow> Inl e
           | Inr best_next_action \<Rightarrow>
               (if best_next_action < length nv then
                  (let td_target = fadd reward (fmul DISCOUNT_FACTOR (nv ! best_next_action))
                   in (case Q state of
                         None \<Rightarrow> Inl KeyError
                       | Some v \<Rightarrow>
                           (if action < length v then
                              (let td_error = fsub td_target (v ! action)
                               in Inr (Q(state \<mapsto>
                                         v[action := fadd (v ! action) (fmul LEARNING_RATE td_error)])))
                            else Inl IndexError)))
                else Inl IndexError)))"

subsection \<open>Training\<close>

text \<open>The variables of one episode of \<^verbatim>\<open>train_ai\<close>: the global \<^verbatim>\<open>Q\<close> and the
  locals \<^verbatim>\<open>board\<close>, \<^verbatim>\<open>state\<close>, \<^verbatim>\<open>current_player\<close>, \<^verbatim>\<open>done\<close>.\<close>

record episode =
  t_Q :: qtable
  t_board :: board
  t_state :: key
  t_current_player :: string
  t_done :: bool

text \<open>One pass through the body of \<^verbatim>\<open>while not done\<close>.\<close>

definition train_turn :: "real \<Rightarrow> draw \<Rightarrow> episode \<Rightarrow> error + episode" where
  "train_turn exploration_rate d t =
     (case choose_action (t_Q t) (t_state t) exploration_rate d of
        Inl e \<Rightarrow> Inl e
      | Inr action \<Rightarrow>
          (let row = action div BOARD_SIZE; col = action mod BOARD_SIZE
           in (case cell (t_board t) row col of
                 Inl e \<Rightarrow> Inl e
               | Inr c \<Rightarrow>
                   (if c = '' '' then
                      (let b = set_cell (t_board t) row col (t_current_player t)
                       in (case is_winner b (t_current_player t) of
                             Inl e \<Rightarrow> Inl e
                           | Inr w \<Rightarrow>
                               (let reward = (if w then (if t_current_player t = ''O'' then 1 else - 1) else 0);
                                    finished = (if w then True else if is_draw b then True else t_done t);
                                    next_state = board_to_tuple b
                                in (case update_q_table (initialize_q_table (t_Q t) b)
                                           (t_state t) action reward next_state of
                                      Inl e \<Rightarrow> Inl e
                                    | Inr Q' \<Rightarrow>
                                        Inr \<lparr>t_Q = Q', t_board = b, t_state = next_state,
                                             t_current_player =
                                               (if t_current_player t = ''O'' then ''X'' else ''O''),
                                             t_done = finished\<rparr>))))
                    else Inr t))))"

text \<open>The loop \<^verbatim>\<open>while not done\<close>. The list holds the random numbers still to come, one
  \<open>draw\<close> for each pass; \<open>None\<close> says that the loop has not ended when they are used up.\<close>

fun train_loop :: "real \<Rightarrow> draw list \<Rightarrow> episode \<Rightarrow> (error + episode \<times> draw list) option" where
  "train_loop exploration_rate [] t = (if t_done t then Some (Inr (t, [])) else None)"
| "train_loop exploration_rate (d # ds) t =
     (if t_done t then Some (Inr (t, d # ds))
      else (case train_turn exploration_rate d t of
              Inl e \<Rightarrow> Some (Inl e)
            | Inr t' \<Rightarrow> train_loop exploration_rate ds t'))"

text \<open>The globals that training changes.\<close>

record globals =
  g_Q :: qtable
  g_EXPLORATION_RATE :: real

definition initial_globals :: globals where
  "initial_globals = \<lparr>g_Q = Map.empty, g_EXPLORATION_RATE = EXPLORATION_RATE\<rparr>"

text \<open>The body of \<^verbatim>\<open>for episode in range(episodes)\<close>.\<close>

definition train_episode :: "draw list \<Rightarrow> globals \<Rightarrow> (error + globals \<times> draw list) option" where
  "train_episode ds G =
     (let b = empty_board;
          Q0 = initialize_q_table (g_Q G) b
      in (case train_loop (g_EXPLORATION_RATE G) ds
                 \<lparr>t_Q = Q0, t_board = b, t_state = board_to_tuple b,
                  t_current_player = ''O'', t_done = False\<rparr> of
            None \<Rightarrow> None
          | Some (Inl e) \<Rightarrow> Some (Inl e)
          | Some (Inr (t, rest)) \<Rightarrow>
              Some (Inr (\<lparr>g_Q = t_Q t,
                          g_EXPLORATION_RATE = fmul (g_EXPLORATION_RATE G) EXPLORATION_DECAY\<rparr>,
                        rest))))"

fun train_ai :: "nat \<Rightarrow> draw list \<Rightarrow> globals \<Rightarrow> (error + globals \<times> draw list) option" where
  "train_ai 0 ds G = Some (Inr (G, ds))"
| "train_ai (Suc n) ds G =
     (case train_episode ds G of
        None \<Rightarrow> None
      | Some (Inl e) \<Rightarrow> Some (Inl e)
      | Some (Inr (G', rest)) \<Rightarrow> train_ai n rest G')"

subsection \<open>Interactive play\<close>

text \<open>The fields of a \<^verbatim>\<open>TicTacToeGame\<close> object. \<open>self_buttons\<close> holds the text of each
  button; \<open>shown\<close> records every call of \<^verbatim>\<open>messagebox.showinfo\<close> (title and message),
  oldest first.\<close>

record game =
  self_board :: board
  self_buttons :: "string list list"
  self_human_symbol :: string
  self_ai_symbol :: string
  self_current_player :: string
  shown :: "(string \<times> string) list"

text \<open>A method either returns or raises; the object keeps the changes made before an
  exception.\<close>

datatype 'a result = Returns 'a | Raises error 'a

fun state_of :: "'a result \<Rightarrow> 'a" where
  "state_of (Returns g) = g"
| "state_of (Raises e g) = g"

text \<open>\<^verbatim>\<open>self.board[row][col] = mark; self.buttons[row][col].config(text=mark)\<close>\<close>

definition place :: "game \<Rightarrow> nat \<Rightarrow> nat \<Rightarrow> string \<Rightarrow> game" where
  "place g row col mark =
     g\<lparr>self_board := set_cell (self_board g) row col mark,
       self_buttons := set_cell (self_buttons g) row col mark\<rparr>"

text \<open>The assignments of \<^verbatim>\<open>reset_game\<close> before its last test.\<close>

definition clear :: "game \<Rightarrow> game" where
  "clear g =
     g\<lparr>self_board := empty_board,
       self_buttons := replicate BOARD_SIZE (replicate BOARD_SIZE '' ''),
       self_current_player := self_human_symbol g\<rparr>"

definition showinfo :: "string \<Rightarrow> string \<Rightarrow> game \<Rightarrow> game" where
  "showinfo title message g = g\<lparr>shown := shown g @ [(title, message)]\<rparr>"

text \<open>\<^verbatim>\<open>ai_move\<close> calls \<^verbatim>\<open>end_game\<close>, which calls \<^verbatim>\<open>reset_game\<close>, which may call
  \<^verbatim>\<open>ai_move\<close> again: the three methods are one recursive function of the call to run.
  \<open>None\<close> says that the call does not return.\<close>

datatype call = Ai_move game | End_game game string | Reset_game game

partial_function (option) run :: "qtable \<Rightarrow> call \<Rightarrow> game result option" where
  "run Q c =
     (case c of
        Ai_move g \<Rightarrow>
          (case Q (board_to_tuple (self_board g)) of
             None \<Rightarrow> Some (Raises KeyError g)
           | Some v \<Rightarrow>
               (case argmax v of
                  Inl e \<Rightarrow> Some (Raises e g)
                | Inr action \<Rightarrow>
                    (case cell (self_board g) (action div BOARD_SIZE) (action mod BOARD_SIZE) of
                       Inl e \<Rightarrow> Some (Raises e g)
                     | Inr c \<Rightarrow>
                         (if c = '' '' then
                            (case is_winner
                                    (self_board (place g (action div BOARD_SIZE) (action mod BOARD_SIZE)
                                                  (self_ai_symbol g)))
                                    (self_ai_symbol g) of
                               Inl e \<Rightarrow>
                                 Some (Raises e (place g (action div BOARD_SIZE) (action mod BOARD_SIZE)
                                                  (self_ai_symbol g)))
                             | Inr w \<Rightarrow>
                                 (if w then
                                    run Q (End_game
                                             (place g (action div BOARD_SIZE) (action mod BOARD_SIZE)
                                               (self_ai_symbol g))
                                             (''AI ('' @ self_ai_symbol g @ '') wins!''))
                                  else if is_draw
                                       (self_board (place g (action div BOARD_SIZE)
                                                     (action mod BOARD_SIZE) (self_ai_symbol g))) then
                                    run Q (End_game
                                             (place g (action div BOARD_SIZE) (action mod BOARD_SIZE)
                                               (self_ai_symbol g))
                                             ''It's a draw!'')
                                  else
                                    Some (Returns
                                            ((place g (action div BOARD_SIZE) (action mod BOARD_SIZE)
                                               (self_ai_symbol g))
                                             \<lparr>self_current_player := self_human_symbol g\<rparr>))))
                          else Some (Returns g)))))
      | End_game g message \<Rightarrow> run Q (Reset_game (showinfo ''Game Over'' message g))
      | Reset_game g \<Rightarrow>
          (if self_current_player (clear g) = self_ai_symbol (clear g)
           then run Q (Ai_move (clear g))
           else Some (Returns (clear g))))"

definition ai_move :: "qtable \<Rightarrow> game \<Rightarrow> game result option" where
  "ai_move Q g = run Q (Ai_move g)"

definition end_game :: "qtable \<Rightarrow> game \<Rightarrow> string \<Rightarrow> game result option" where
  "end_game Q g message = run Q (End_game g message)"

definition reset_game :: "qtable \<Rightarrow> game \<Rightarrow> game result option" where
  "reset_game Q g = run Q (Reset_game g)"

definition make_move :: "qtable \<Rightarrow> game \<Rightarrow> nat \<Rightarrow> nat \<Rightarrow> game result option" where
  "make_move Q g row col =
     (case cell (self_board g) row col of
        Inl e \<Rightarrow> Some (Raises e g)
      | Inr c \<Rightarrow>
          (if c = '' '' \<and> self_current_player g = self_human_symbol g then
             (let g1 = place g row col (self_human_symbol g)
              in (case is_winner (self_board g1) (self_human_symbol g1) of
                    Inl e \<Rightarrow> Some (Raises e g1)
                  | Inr w \<Rightarrow>
                      (if w then end_game Q g1 (''Player '' @ self_human_symbol g1 @ '' wins!'')
                       else if is_draw (self_board g1) then end_game Q g1 ''It's a draw!''
                       else ai_move Q (g1\<lparr>self_current_player := self_ai_symbol g1\<rparr>))))
           else Some (Returns g)))"

text \<open>\<^verbatim>\<open>TicTacToeGame.__init__\<close>; \<^verbatim>\<open>create_buttons\<close> gives every button the text
  \<^verbatim>\<open>' '\<close>.\<close>

definition new_game :: "qtable \<Rightarrow> string \<Rightarrow> string \<Rightarrow> bool \<Rightarrow> game result option" where
  "new_game Q player_symbol ai_symbol human_starts =
     (let g = \<lparr>self_board = empty_board,
               self_buttons = replicate BOARD_SIZE (replicate BOARD_SIZE '' ''),
               self_human_symbol = player_symbol,
               self_ai_symbol = ai_symbol,
               self_current_player = (if human_starts then player_symbol else ai_symbol),
               shown = []\<rparr>
      in if \<not> human_starts then ai_move Q g else Some (Returns g))"

text \<open>A session after the constructor: the buttons call \<^verbatim>\<open>make_move\<close>, one click after
  the other. Tk reports an exception raised in a callback and goes on with the next event,
  so the next click meets the object as the failed call left it.\<close>

fun clicks :: "qtable \<Rightarrow> game \<Rightarrow> (nat \<times> nat) list \<Rightarrow> game option" where
  "clicks Q g [] = Some g"
| "clicks Q g ((row, col) # rest) =
     (case make_move Q g row col of
        None \<Rightarrow> None
      | Some r \<Rightarrow> clicks Q (state_of r) rest)"

subsection \<open>Properties of tables, boards and episodes\<close>

text \<open>Every entry of the table is a vector with one value for each cell.\<close>

definition table_ok :: "qtable \<Rightarrow> bool" where
  "table_ok Q \<longleftrightarrow> (\<forall>k v. Q k = Some v \<longrightarrow> length v = BOARD_SIZE * BOARD_SIZE)"

text \<open>The two functions that write to the table, as operations; a call of
  \<^verbatim>\<open>update_q_table\<close> that raises has written nothing.\<close>

datatype q_op = Initialize board | Update key nat real key

fun apply_q_op :: "qtable \<Rightarrow> q_op \<Rightarrow> qtable" where
  "apply_q_op Q (Initialize b) = initialize_q_table Q b"
| "apply_q_op Q (Update state action reward next_state) =
     (case update_q_table Q state action reward next_state of Inl e \<Rightarrow> Q | Inr Q' \<Rightarrow> Q')"

text \<open>Some cell of the board holds the mark \<^verbatim>\<open>'O'\<close>, the player who moves first in every
  training episode.\<close>

definition has_O :: "board \<Rightarrow> bool" where
  "has_O b = list_ex (\<lambda>row. ''O'' \<in> set row) b"

text \<open>The keys that training can put into the table: the empty board and boards with a mark
  of \<^verbatim>\<open>'O'\<close>.\<close>

definition keys_from_training :: "qtable \<Rightarrow> bool" where
  "keys_from_training Q \<longleftrightarrow>
     (\<forall>k. Q k \<noteq> None \<longrightarrow> k = board_to_tuple empty_board \<or> (\<exists>b. k = board_to_tuple b \<and> has_O b))"

definition episode_ok :: "episode \<Rightarrow> bool" where
  "episode_ok t \<longleftrightarrow>
     keys_from_training (t_Q t)
     \<and> ((t_board t = empty_board \<and> t_current_player t = ''O'') \<or> has_O (t_board t))"

text \<open>What the lookups of a training episode need: a board of the right shape, entries of
  the right length, and an entry for the current state.\<close>

definition episode_safe :: "episode \<Rightarrow> bool" where
  "episode_safe t \<longleftrightarrow> wf_board (t_board t) \<and> table_ok (t_Q t) \<and> t_Q t (t_state t) \<noteq> None"

text \<open>\<^verbatim>\<open>random.randint(0, BOARD_SIZE * BOARD_SIZE - 1)\<close> returns an index of a cell.\<close>

definition draws_in_range :: "draw list \<Rightarrow> bool" where
  "draws_in_range ds = list_all (\<lambda>d. randint d < BOARD_SIZE * BOARD_SIZE) ds"

text \<open>Line 152, \<^verbatim>\<open>EXPLORATION_RATE *= EXPLORATION_DECAY\<close>, as a function of the rate; and
  the two factors between which one such step lies when nothing underflows: the decimal
  0.995 with the relative error of rounding to float64, \<open>1 / 2 ^ 53\<close>, taken twice, for
  the constant and for the product.\<close>

definition decay :: "real \<Rightarrow> real" where
  "decay r = fmul r EXPLORATION_DECAY"

definition rate_lower :: real where
  "rate_lower = 0.995 * (1 - 1 / 2 ^ 53) ^ 2"

definition rate_upper :: real where
  "rate_upper = 0.995 * (1 + 1 / 2 ^ 53) ^ 2"

subsection \<open>Concrete boards, tables, games and random draws\<close>

text \<open>A full board (13 marks of \<^verbatim>\<open>'O'\<close>, who moves first in training, and 12 of
  \<^verbatim>\<open>'X'\<close>) whose first row belongs to \<^verbatim>\<open>'O'\<close>.\<close>

definition full_board_o_wins :: board where
  "full_board_o_wins =
     [[''O'', ''O'', ''O'', ''O'', ''O''],
      [''X'', ''X'', ''O'', ''X'', ''X''],
      [''O'', ''X'', ''X'', ''O'', ''O''],
      [''X'', ''O'', ''X'', ''X'', ''O''],
      [''X'', ''O'', ''O'', ''X'', ''X'']]"

text \<open>The board after \<^verbatim>\<open>'O'\<close> has taken the first cell, and after \<^verbatim>\<open>'X'\<close>
  has answered on the second.\<close>

definition board_O0 :: board where
  "board_O0 =
     [[''O'', '' '', '' '', '' '', '' ''],
      ['' '', '' '', '' '', '' '', '' ''],
      ['' '', '' '', '' '', '' '', '' ''],
      ['' '', '' '', '' '', '' '', '' ''],
      ['' '', '' '', '' '', '' '', '' '']]"

definition board_O0_X1 :: board where
  "board_O0_X1 =
     [[''O'', ''X'', '' '', '' '', '' ''],
      ['' '', '' '', '' '', '' '', '' ''],
      ['' '', '' '', '' '', '' '', '' ''],
      ['' '', '' '', '' '', '' '', '' ''],
      ['' '', '' '', '' '', '' '', '' '']]"

definition zeros25 :: "real list" where
  "zeros25 = [0,0,0,0,0, 0,0,0,0,0, 0,0,0,0,0, 0,0,0,0,0, 0,0,0,0,0]"

text \<open>An entry whose maximum is the float64 number \<^verbatim>\<open>0.8\<close>.\<close>

definition next_values :: "real list" where
  "next_values = [0,0,0,0,0, 0,0,round64 0.8,0,0, 0,0,0,0,0, 0,0,0,0,0, 0,0,0,0,0]"

definition example_Q :: qtable where
  "example_Q = [board_to_tuple empty_board \<mapsto> zeros25, board_to_tuple board_O0 \<mapsto> next_values]"

definition example_ops :: "q_op list" where
  "example_ops =
     [Initialize empty_board, Initialize board_O0, Initialize empty_board,
      Update (board_to_tuple empty_board) 0 1 (board_to_tuple board_O0)]"

text \<open>An entry with two maxima, at the indices 1 and 2.\<close>

definition tie_values :: "real list" where
  "tie_values = [0,5,5,0,0, 0,0,0,0,0, 0,0,0,0,0, 0,0,0,0,0, 0,0,0,0,0]"

definition tie_Q :: qtable where
  "tie_Q = [board_to_tuple board_O0 \<mapsto> tie_values]"

text \<open>Games of a human who plays \<^verbatim>\<open>'O'\<close> and starts, against the AI playing
  \<^verbatim>\<open>'X'\<close>: before the first move, after the human's click on the first cell, and after
  an answer of the AI on the second cell.\<close>

definition game_O_start :: game where
  "game_O_start =
     \<lparr>self_board = empty_board, self_buttons = empty_board,
      self_human_symbol = ''O'', self_ai_symbol = ''X'', self_current_player = ''O'', shown = []\<rparr>"

definition game_O0 :: game where
  "game_O0 =
     \<lparr>self_board = board_O0, self_buttons = board_O0,
      self_human_symbol = ''O'', self_ai_symbol = ''X'', self_current_player = ''X'', shown = []\<rparr>"

definition game_O0_X1 :: game where
  "game_O0_X1 =
     \<lparr>self_board = board_O0_X1, self_buttons = board_O0_X1,
      self_human_symbol = ''O'', self_ai_symbol = ''X'', self_current_player = ''O'', shown = []\<rparr>"

text \<open>A human who plays \<^verbatim>\<open>'X'\<close> and starts: the game before the first move, and the
  board and the game after the click on the first cell, when the AI is to move.\<close>

definition board_X0 :: board where
  "board_X0 =
     [[''X'', '' '', '' '', '' '', '' ''],
      ['' '', '' '', '' '', '' '', '' ''],
      ['' '', '' '', '' '', '' '', '' ''],
      ['' '', '' '', '' '', '' '', '' ''],
      ['' '', '' '', '' '', '' '', '' '']]"

definition game_X_start :: game where
  "game_X_start =
     \<lparr>self_board = empty_board, self_buttons = empty_board,
      self_human_symbol = ''X'', self_ai_symbol = ''O'', self_current_player = ''X'', shown = []\<rparr>"

definition game_X0 :: game where
  "game_X0 =
     \<lparr>self_board = board_X0, self_buttons = board_X0,
      self_human_symbol = ''X'', self_ai_symbol = ''O'', self_current_player = ''O'', shown = []\<rparr>"

text \<open>The same human one move before winning with the first row, and one move before the
  board is full with no line of five for either player (twelve marks each, the last cell
  free); the game after the message of each of the two endings.\<close>

definition board_X_to_win :: board where
  "board_X_to_win =
     [[''X'', ''X'', ''X'', ''X'', '' ''],
      [''O'', ''O'', ''O'', ''O'', '' ''],
      ['' '', '' '', '' '', '' '', '' ''],
      ['' '', '' '', '' '', '' '', '' ''],
      ['' '', '' '', '' '', '' '', '' '']]"

definition board_X_to_draw :: board where
  "board_X_to_draw =
     [[''X'', ''X'', ''O'', ''O'', ''X''],
      [''O'', ''O'', ''X'', ''X'', ''O''],
      [''X'', ''X'', ''O'', ''O'', ''X''],
      [''O'', ''O'', ''X'', ''X'', ''O''],
      [''X'', ''O'', ''O'', ''X'', '' '']]"

definition game_X_to_win :: game where
  "game_X_to_win = game_X_start\<lparr>self_board := board_X_to_win, self_buttons := board_X_to_win\<rparr>"

definition game_X_to_draw :: game where
  "game_X_to_draw = game_X_start\<lparr>self_board := board_X_to_draw, self_buttons := board_X_to_draw\<rparr>"

definition game_X_won :: game where
  "game_X_won = game_X_start\<lparr>shown := [(''Game Over'', ''Player X wins!'')]\<rparr>"

definition game_X_drawn :: game where
  "game_X_drawn = game_X_start\<lparr>shown := [(''Game Over'', ''It's a draw!'')]\<rparr>"

text \<open>An episode in which \<^verbatim>\<open>'O'\<close> holds the first cell and \<^verbatim>\<open>'X'\<close> is to move, with a
  table whose entry for this state has a positive maximum.\<close>

definition episode_O0 :: episode where
  "episode_O0 =
     \<lparr>t_Q = example_Q, t_board = board_O0, t_state = board_to_tuple board_O0,
      t_current_player = ''X'', t_done = False\<rparr>"

text \<open>A draw that explores (at every exploration rate above one half) and picks the cell
  \<open>n\<close>; the draws of an episode that \<^verbatim>\<open>'O'\<close> wins with the first row on its fifth
  move.\<close>

definition explore :: "nat \<Rightarrow> draw" where
  "explore n = \<lparr>uniform = 1/2, randint = n\<rparr>"

definition example_draws :: "draw list" where
  "example_draws = map explore [0, 5, 1, 6, 2, 7, 3, 8, 4]"

section \<open>Lemmas\<close>

subsection \<open>Rounding to the nearest integer\<close>

lemma round_even_cases:
  "round_even y = \<lfloor>y\<rfloor> \<and> y - of_int \<lfloor>y\<rfloor> \<le> 1/2
   \<or> round_even y = \<lfloor>y\<rfloor> + 1 \<and> 1/2 \<le> y - of_int \<lfloor>y\<rfloor>"
  by (auto simp add: round_even_def Let_def)

lemma round_even_error: "\<bar>of_int (round_even y) - y\<bar> \<le> 1/2"
  using round_even_cases [of y] by (auto simp add: abs_le_iff)

lemma round_even_of_int [simp]: "round_even (of_int n) = n"
  by (simp add: round_even_def)

lemma round_even_mono:
  assumes "y \<le> z"
  shows "round_even y \<le> round_even z"
proof (cases "\<lfloor>y\<rfloor> = \<lfloor>z\<rfloor>")
  case True
  with assms show ?thesis
    by (auto simp add: round_even_def Let_def)
next
  case False
  with assms have "\<lfloor>y\<rfloor> < \<lfloor>z\<rfloor>" using floor_mono [of y z] by linarith
  moreover have "round_even y \<le> \<lfloor>y\<rfloor> + 1" using round_even_cases [of y] by auto
  moreover have "\<lfloor>z\<rfloor> \<le> round_even z" using round_even_cases [of z] by auto
  ultimately show ?thesis by linarith
qed

lemma round_even_nonneg: "0 \<le> y \<Longrightarrow> 0 \<le> round_even y"
  using round_even_mono [of 0 y] round_even_of_int [of 0] by simp

subsection \<open>The exponent of a float64 number\<close>

lemma two_powi_pos [simp]: "0 < (2::real) powi k"
  by (simp add: zero_less_power_int)

lemma two_powi_Suc: "(2::real) powi (k + 1) = 2 * 2 powi k"
  by (simp add: power_int_add)

lemma two_powi_pred: "(2::real) powi (k - 1) = 2 powi k / 2"
  by (simp add: power_int_diff)

lemma exponent_bounds:
  "2 powi (- int n) \<le> x \<Longrightarrow> x < 2 powi (int n + 1) \<Longrightarrow>
   2 powi (exponent n x) \<le> x \<and> x < 2 powi (exponent n x + 1)"
proof (induction n arbitrary: x)
  case 0
  then show ?case by simp
next
  case (Suc n)
  show ?case
  proof (cases "2 \<le> x")
    case True
    have "2 powi (- int n) \<le> (1::real)"
      using power_int_increasing [of "- int n" 0 "2::real"] by simp
    with True have lo: "2 powi (- int n) \<le> x / 2" by simp
    have "(2::real) powi (int (Suc n) + 1) = 2 * 2 powi (int n + 1)"
      using two_powi_Suc [of "int n + 1"] by (simp add: algebra_simps)
    with Suc.prems(2) have "x < 2 * 2 powi (int n + 1)" by simp
    then have hi: "x / 2 < 2 powi (int n + 1)" by simp
    let ?e = "exponent n (x / 2)"
    from Suc.IH [OF lo hi] have "2 powi ?e \<le> x / 2" and "x / 2 < 2 powi (?e + 1)" by simp_all
    then have "2 powi (?e + 1) \<le> x" and "x < 2 powi (?e + 1 + 1)"
      unfolding two_powi_Suc [of "?e + 1"] unfolding two_powi_Suc [of ?e] by simp_all
    with True show ?thesis by simp
  next
    case False
    show ?thesis
    proof (cases "x < 1")
      case True
      have "- int (Suc n) = - int n - 1" by simp
      then have "2 powi (- int (Suc n)) = (2::real) powi (- int n - 1)" by (simp only:)
      also have "\<dots> = 2 powi (- int n) / 2" by (rule two_powi_pred)
      finally have "2 powi (- int (Suc n)) = (2::real) powi (- int n) / 2" .
      with Suc.prems(1) have lo: "2 powi (- int n) \<le> x * 2" by simp
      have "(2::real) \<le> 2 powi (int n + 1)"
        using power_int_increasing [of 1 "int n + 1" "2::real"] by simp
      with True have hi: "x * 2 < 2 powi (int n + 1)" by simp
      let ?e = "exponent n (x * 2)"
      from Suc.IH [OF lo hi] have "2 powi ?e \<le> x * 2" and "x * 2 < 2 powi (?e + 1)" by simp_all
      then have "2 powi (?e - 1) \<le> x" and "x < 2 powi (?e - 1 + 1)"
        unfolding two_powi_pred [of ?e] by (simp_all add: two_powi_Suc)
      with True \<open>\<not> 2 \<le> x\<close> show ?thesis by simp
    next
      case False
      with \<open>\<not> 2 \<le> x\<close> show ?thesis by simp
    qed
  qed
qed

lemma two_powi_less_imp: "(2::real) powi a < 2 powi b \<Longrightarrow> a < b"
  by (metis linorder_not_le one_le_numeral power_int_increasing)

lemma fexp_bounds:
  assumes "\<bar>x\<bar> < 2 powi 1101"
  shows "\<bar>x\<bar> < 2 powi (fexp x + 1)" and "- 1022 \<le> fexp x"
    and "2 powi (- 1022) \<le> \<bar>x\<bar> \<Longrightarrow> 2 powi (fexp x) \<le> \<bar>x\<bar>"
proof -
  have small: "(2::real) powi (- int 1100) \<le> 2 powi (- 1022)"
    by (rule power_int_increasing) simp_all
  have big: "\<bar>x\<bar> < 2 powi (int 1100 + 1)" using assms by simp
  have normal: "2 powi (fexp x) \<le> \<bar>x\<bar> \<and> \<bar>x\<bar> < 2 powi (fexp x + 1)" if "2 powi (- 1022) \<le> \<bar>x\<bar>"
  proof -
    from that small have "2 powi (- int 1100) \<le> \<bar>x\<bar>" by linarith
    from exponent_bounds [OF this big] that show ?thesis by (simp add: fexp_def)
  qed
  show "\<bar>x\<bar> < 2 powi (fexp x + 1)"
  proof (cases "\<bar>x\<bar> < 2 powi (- 1022)")
    case True
    have "(2::real) powi (- 1022) \<le> 2 powi (- 1022 + 1)"
      by (rule power_int_increasing) simp_all
    with True show ?thesis by (simp add: fexp_def)
  next
    case False
    with normal show ?thesis by simp
  qed
  show "- 1022 \<le> fexp x"
  proof (cases "\<bar>x\<bar> < 2 powi (- 1022)")
    case True
    then show ?thesis by (simp add: fexp_def)
  next
    case False
    with normal have "(2::real) powi (- 1022) < 2 powi (fexp x + 1)" by linarith
    from two_powi_less_imp [OF this] show ?thesis by simp
  qed
  show "2 powi (- 1022) \<le> \<bar>x\<bar> \<Longrightarrow> 2 powi (fexp x) \<le> \<bar>x\<bar>"
    using normal by simp
qed

text \<open>The exponent is determined by the binade.\<close>

lemma fexp_eqI:
  assumes "2 powi k \<le> \<bar>x\<bar>" and "\<bar>x\<bar> < 2 powi (k + 1)" and "- 1022 \<le> k" and "k \<le> 1100"
  shows "fexp x = k"
proof -
  have "(2::real) powi (k + 1) \<le> 2 powi 1101"
    using assms(4) by (intro power_int_increasing) simp_all
  with assms(2) have r: "\<bar>x\<bar> < 2 powi 1101" by linarith
  have "(2::real) powi (- 1022) \<le> 2 powi k"
    using assms(3) by (intro power_int_increasing) simp_all
  with assms(1) have n: "2 powi (- 1022) \<le> \<bar>x\<bar>" by linarith
  from fexp_bounds(1) [OF r] assms(1) have "(2::real) powi k < 2 powi (fexp x + 1)" by linarith
  then have "k < fexp x + 1" by (rule two_powi_less_imp)
  moreover from fexp_bounds(3) [OF r n] assms(2) have "(2::real) powi (fexp x) < 2 powi (k + 1)"
    by linarith
  then have "fexp x < k + 1" by (rule two_powi_less_imp)
  ultimately show ?thesis by simp
qed

lemma fexp_small: "\<bar>x\<bar> < 2 powi (- 1022) \<Longrightarrow> fexp x = - 1022"
  by (simp add: fexp_def)

lemma fexp_le:
  assumes "\<bar>x\<bar> < 2 powi (k + 1)" and "- 1022 \<le> k" and "k \<le> 1100"
  shows "fexp x \<le> k"
proof (cases "\<bar>x\<bar> < 2 powi (- 1022)")
  case True
  with assms(2) show ?thesis by (simp add: fexp_small)
next
  case False
  have "(2::real) powi (k + 1) \<le> 2 powi 1101"
    using assms(3) by (intro power_int_increasing) simp_all
  with assms(1) have r: "\<bar>x\<bar> < 2 powi 1101" by linarith
  from fexp_bounds(3) [OF r] False assms(1) have "(2::real) powi (fexp x) < 2 powi (k + 1)"
    by linarith
  then have "fexp x < k + 1" by (rule two_powi_less_imp)
  then show ?thesis by simp
qed

lemma fexp_mono:
  assumes "\<bar>x\<bar> \<le> \<bar>y\<bar>" and "\<bar>y\<bar> < 2 powi 1101"
  shows "fexp x \<le> fexp y"
proof -
  have "\<bar>x\<bar> < 2 powi (fexp y + 1)" using fexp_bounds(1) [OF assms(2)] assms(1) by linarith
  moreover have "fexp y \<le> 1100"
  proof (cases "\<bar>y\<bar> < 2 powi (- 1022)")
    case True
    then show ?thesis by (simp add: fexp_small)
  next
    case False
    with fexp_bounds(3) [OF assms(2)] assms(2) have "(2::real) powi (fexp y) < 2 powi 1101"
      by linarith
    from two_powi_less_imp [OF this] show ?thesis by simp
  qed
  ultimately show ?thesis using fexp_bounds(2) [OF assms(2)] fexp_le [of x "fexp y"] by simp
qed


subsection \<open>Rounding to float64\<close>

lemma round64_zero [simp]: "round64 0 = 0"
  using round_even_of_int [of 0] by (simp add: round64_def)

lemma two_powi_split: "(2::real) powi (k + 1) = 2 ^ 53 * 2 powi (k - 52)"
proof -
  have "k + 1 = 53 + (k - 52)" by simp
  then have "(2::real) powi (k + 1) = 2 powi (53 + (k - 52))" by (simp only:)
  also have "\<dots> = 2 powi 53 * 2 powi (k - 52)" by (rule power_int_add) simp
  finally show ?thesis by simp
qed

lemma two_powi_split': "(2::real) powi k = 2 ^ 52 * 2 powi (k - 52)"
proof -
  have "k = 52 + (k - 52)" by simp
  then have "(2::real) powi k = 2 powi (52 + (k - 52))" by (simp only:)
  also have "\<dots> = 2 powi 52 * 2 powi (k - 52)" by (rule power_int_add) simp
  finally show ?thesis by simp
qed

lemma round64_nonneg: "0 \<le> x \<Longrightarrow> 0 \<le> round64 x"
  by (simp add: round64_def round_even_nonneg)

lemma round64_upper:
  assumes "0 \<le> x" and "x < 2 powi 1101"
  shows "round64 x \<le> 2 powi (fexp x + 1)"
proof -
  let ?s = "(2::real) powi (fexp x - 52)"
  have "x < 2 powi (fexp x + 1)" using fexp_bounds(1) [of x] assms by simp
  then have "x / ?s < 2 ^ 53" by (simp add: two_powi_split [of "fexp x"] pos_divide_less_eq)
  then have "x / ?s \<le> of_int (2 ^ 53)" by simp
  from round_even_mono [OF this] have "round_even (x / ?s) \<le> 2 ^ 53" by (simp only: round_even_of_int)
  then have "real_of_int (round_even (x / ?s)) \<le> 2 ^ 53"
    by (metis of_int_le_iff of_int_numeral of_int_power)
  then have "real_of_int (round_even (x / ?s)) * ?s \<le> 2 ^ 53 * ?s"
    by (intro mult_right_mono) simp_all
  then show ?thesis by (simp add: round64_def two_powi_split [of "fexp x"])
qed

lemma round64_lower:
  assumes "2 powi (- 1022) \<le> x" and "x < 2 powi 1101"
  shows "2 powi (fexp x) \<le> round64 x"
proof -
  let ?s = "(2::real) powi (fexp x - 52)"
  have pos: "0 \<le> x" using assms(1) two_powi_pos [of "- 1022"] by linarith
  with assms have "2 powi (fexp x) \<le> x" using fexp_bounds(3) [of x] by simp
  then have "2 ^ 52 \<le> x / ?s" by (simp add: two_powi_split' [of "fexp x"] pos_le_divide_eq)
  then have "of_int (2 ^ 52) \<le> x / ?s" by simp
  from round_even_mono [OF this] have "2 ^ 52 \<le> round_even (x / ?s)" by (simp only: round_even_of_int)
  then have "2 ^ 52 \<le> real_of_int (round_even (x / ?s))"
    by (metis of_int_le_iff of_int_numeral of_int_power)
  then have "2 ^ 52 * ?s \<le> real_of_int (round_even (x / ?s)) * ?s"
    by (intro mult_right_mono) simp_all
  then show ?thesis by (simp add: round64_def two_powi_split' [of "fexp x"])
qed

text \<open>In the range of the normal numbers the relative error of rounding is at most 2^-53.\<close>

lemma round64_error:
  assumes "2 powi (- 1022) \<le> \<bar>x\<bar>" and "\<bar>x\<bar> < 2 powi 1101"
  shows "\<bar>round64 x - x\<bar> \<le> \<bar>x\<bar> / 2 ^ 53"
proof -
  let ?s = "(2::real) powi (fexp x - 52)"
  have s: "0 < ?s" by simp
  have "\<bar>of_int (round_even (x / ?s)) - x / ?s\<bar> \<le> 1/2" by (rule round_even_error)
  then have "\<bar>of_int (round_even (x / ?s)) - x / ?s\<bar> * ?s \<le> 1/2 * ?s"
    by (intro mult_right_mono) simp_all
  moreover have "\<bar>of_int (round_even (x / ?s)) - x / ?s\<bar> * ?s = \<bar>round64 x - x\<bar>"
  proof -
    have "\<bar>of_int (round_even (x / ?s)) - x / ?s\<bar> * ?s = \<bar>(of_int (round_even (x / ?s)) - x / ?s) * ?s\<bar>"
      using s by (simp add: abs_mult)
    also have "(of_int (round_even (x / ?s)) - x / ?s) * ?s = round64 x - x"
      using s by (simp add: round64_def left_diff_distrib)
    finally show ?thesis .
  qed
  ultimately have "\<bar>round64 x - x\<bar> \<le> ?s / 2" by simp
  moreover have "2 powi (fexp x) \<le> \<bar>x\<bar>" using fexp_bounds(3) [OF assms(2) assms(1)] .
  then have "2 ^ 52 * ?s \<le> \<bar>x\<bar>" by (simp add: two_powi_split' [of "fexp x"])
  then have "?s / 2 \<le> \<bar>x\<bar> / 2 ^ 53" by (simp add: field_simps)
  ultimately show ?thesis by linarith
qed

lemma round64_mono:
  assumes "0 \<le> x" and "x \<le> y" and "y < 2 powi 1101"
  shows "round64 x \<le> round64 y"
proof -
  have y0: "0 \<le> y" and xr: "x < 2 powi 1101" using assms by simp_all
  have le: "fexp x \<le> fexp y" using fexp_mono [of x y] assms by simp
  show ?thesis
  proof (cases "fexp x = fexp y")
    case True
    let ?s = "(2::real) powi (fexp y - 52)"
    have "x / ?s \<le> y / ?s" using assms(2) by (simp add: divide_right_mono)
    from round_even_mono [OF this] have "real_of_int (round_even (x / ?s)) \<le> real_of_int (round_even (y / ?s))"
      by simp
    then have "real_of_int (round_even (x / ?s)) * ?s \<le> real_of_int (round_even (y / ?s)) * ?s"
      by (intro mult_right_mono) simp_all
    with True show ?thesis by (simp add: round64_def)
  next
    case False
    with le have lt: "fexp x + 1 \<le> fexp y" by simp
    have "- 1022 \<le> fexp x" using fexp_bounds(2) [of x] xr assms(1) by simp
    with lt have "fexp y \<noteq> - 1022" by simp
    then have "\<not> \<bar>y\<bar> < 2 powi (- 1022)" using fexp_small [of y] by blast
    with y0 have ny: "2 powi (- 1022) \<le> y" by simp
    have "round64 x \<le> 2 powi (fexp x + 1)" by (rule round64_upper [OF assms(1) xr])
    also have "\<dots> \<le> 2 powi (fexp y)" using lt by (intro power_int_increasing) simp_all
    also have "\<dots> \<le> round64 y" by (rule round64_lower [OF ny assms(3)])
    finally show ?thesis .
  qed
qed

text \<open>The result of rounding is a number of the format: rounding it again changes nothing.\<close>

lemma round64_idem:
  assumes "0 \<le> x" and "x < 2 powi 1100"
  shows "round64 (round64 x) = round64 x"
proof -
  define k where "k = fexp x"
  define s where "s = (2::real) powi (k - 52)"
  define N where "N = round_even (x / s)"
  define r where "r = round64 x"
  define t where "t = (2::real) powi (fexp r - 52)"
  have t: "0 < t" and s: "0 < s" by (simp_all add: t_def s_def)
  have xr: "x < 2 powi 1101"
    using assms(2) power_int_increasing [of 1100 1101 "2::real"] by simp
  have r: "r = of_int N * s" by (simp add: r_def N_def s_def k_def round64_def)
  have rr: "round64 r = of_int (round_even (r / t)) * t" by (simp add: t_def round64_def)
  have r0: "0 \<le> r" unfolding r_def by (rule round64_nonneg [OF assms(1)])
  have k: "- 1022 \<le> k" using fexp_bounds(2) [of x] xr assms(1) by (simp add: k_def)
  have k': "k \<le> 1099" using fexp_le [of x 1099] assms by (simp add: k_def)
  have up: "r \<le> 2 powi (k + 1)" unfolding r_def k_def by (rule round64_upper [OF assms(1) xr])
  have "round64 r = r"
  proof (cases "r = 2 powi (k + 1)")
    case True
    have e: "fexp r = k + 1"
    proof (rule fexp_eqI)
      show "2 powi (k + 1) \<le> \<bar>r\<bar>" using True by simp
      have "(2::real) powi (k + 1) < 2 powi (k + 1 + 1)"
        by (intro power_int_strict_increasing) simp_all
      then show "\<bar>r\<bar> < 2 powi (k + 1 + 1)" using True by simp
      show "- 1022 \<le> k + 1" using k by simp
      show "k + 1 \<le> 1100" using k' by simp
    qed
    have "t = 2 powi (k + 1 - 52)" by (simp add: t_def e)
    with True have "r = 2 ^ 52 * t" using two_powi_split' [of "k + 1"] by simp
    then have "r / t = of_int (2 ^ 52)" using t by simp
    then have "round_even (r / t) = 2 ^ 52" by (simp only: round_even_of_int)
    then have "round64 r = 2 ^ 52 * t" unfolding rr by simp
    with \<open>r = 2 ^ 52 * t\<close> show ?thesis by simp
  next
    case False
    with up have lt: "\<bar>r\<bar> < 2 powi (k + 1)" using r0 by simp
    have "k \<le> 1100" using k' by simp
    from fexp_le [OF lt k this] have le: "fexp r \<le> k" .
    define d where "d = nat (k - fexp r)"
    have d: "k - 52 = (fexp r - 52) + int d" using le by (simp add: d_def)
    have "s = t * 2 powi (int d)"
      unfolding s_def t_def d by (rule power_int_add) simp
    then have st: "s = t * 2 ^ d" by simp
    have "r / t = of_int N * 2 ^ d" unfolding r st using t by simp
    then have "r / t = of_int (N * 2 ^ d)" by simp
    then have "round_even (r / t) = N * 2 ^ d" by (simp only: round_even_of_int)
    then have "round64 r = of_int (N * 2 ^ d) * t" unfolding rr by simp
    also have "\<dots> = r" unfolding r st by simp
    finally show ?thesis .
  qed
  then show ?thesis by (simp add: r_def)
qed

lemma round64_eval:
  assumes "2 powi k \<le> \<bar>x\<bar>" and "\<bar>x\<bar> < 2 powi (k + 1)" and "- 1022 \<le> k" and "k \<le> 1100"
  shows "round64 x = of_int (round_even (x / 2 powi (k - 52))) * 2 powi (k - 52)"
  unfolding round64_def fexp_eqI [OF assms] ..


subsection \<open>Evaluation of the constants\<close>

lemma round64_one [simp]: "round64 1 = 1"
  by (simp add: round64_eval [of 0] round_even_def)

lemma EXPLORATION_RATE_one: "EXPLORATION_RATE = 1"
  by (simp add: EXPLORATION_RATE_def)

lemma EXPLORATION_DECAY_value: "EXPLORATION_DECAY = 8962163258467287 / 9007199254740992"
  by (simp add: EXPLORATION_DECAY_def round64_eval [of "- 1"] round_even_def power_int_minus)

lemma LEARNING_RATE_value: "LEARNING_RATE = 3602879701896397 / 36028797018963968"
  by (simp add: LEARNING_RATE_def round64_eval [of "- 4"] round_even_def power_int_minus)

lemma DISCOUNT_FACTOR_value: "DISCOUNT_FACTOR = 8106479329266893 / 9007199254740992"
  by (simp add: DISCOUNT_FACTOR_def round64_eval [of "- 1"] round_even_def power_int_minus)

lemma round64_LEARNING_RATE: "round64 LEARNING_RATE = LEARNING_RATE"
  by (simp add: LEARNING_RATE_value round64_eval [of "- 4"] round_even_def power_int_minus)

lemma round64_08: "round64 0.8 = 3602879701896397 / 4503599627370496"
  by (simp add: round64_eval [of "- 1"] round_even_def power_int_minus)

lemma round64_four_fifths: "round64 (4 / 5) = 3602879701896397 / 4503599627370496"
  using round64_08 by simp

lemma argmax_next_values: "argmax next_values = Inr 7"
  by (simp add: argmax_def next_values_def round64_four_fifths)

lemma Max_next_values: "Max (set next_values) = round64 0.8"
  by (simp add: next_values_def round64_four_fifths)

lemma round64_0072: "round64 0.072 = 5188146770730811 / 72057594037927936"
  by (simp add: round64_eval [of "- 4"] round_even_def power_int_minus)

text \<open>The update of a value 0 with reward 0 and a best next value \<^verbatim>\<open>0.8\<close>:
  \<^verbatim>\<open>0.9 * 0.8\<close> is \<^verbatim>\<open>0.7200000000000001\<close>, and the new value is
  \<^verbatim>\<open>0.07200000000000001\<close>.\<close>

lemma q_update_example:
  "fadd 0 (fmul LEARNING_RATE (fsub (fadd 0 (fmul DISCOUNT_FACTOR (round64 0.8))) 0))
     = 1297036692682703 / 18014398509481984"
  by (simp add: fadd_def fsub_def fmul_def LEARNING_RATE_value DISCOUNT_FACTOR_value
      round64_eval [of "- 1"] round64_eval [of "- 4"] round_even_def power_int_minus)

lemma q_update_four_fifths:
  "fadd 0 (fmul LEARNING_RATE (fsub (fadd 0 (fmul DISCOUNT_FACTOR (round64 (4 / 5)))) 0))
     = 1297036692682703 / 18014398509481984"
  using q_update_example by simp

lemma upt_5: "[0..<5] = [0, 1, 2, 3, 4::nat]"
  by (simp add: upt_rec)

lemma replicate_5: "replicate 5 x = [x, x, x, x, x]"
  by (simp add: eval_nat_numeral)

lemma replicate_25: "replicate 25 x = [x,x,x,x,x, x,x,x,x,x, x,x,x,x,x, x,x,x,x,x, x,x,x,x,x]"
  by (simp add: eval_nat_numeral)

lemma empty_board_eq:
  "empty_board =
     [['' '', '' '', '' '', '' '', '' ''],
      ['' '', '' '', '' '', '' '', '' ''],
      ['' '', '' '', '' '', '' '', '' ''],
      ['' '', '' '', '' '', '' '', '' ''],
      ['' '', '' '', '' '', '' '', '' '']]"
  by (simp add: empty_board_def BOARD_SIZE_def eval_nat_numeral)

lemma zeros25_eq: "replicate (BOARD_SIZE * BOARD_SIZE) 0 = zeros25"
  by (simp add: zeros25_def BOARD_SIZE_def eval_nat_numeral)

lemma BOARD_SIZE_pos: "0 < BOARD_SIZE"
  by (simp add: BOARD_SIZE_def)

lemmas eval_board =
  cell_def place_def set_cell_def is_winner_def upt_5 or_else_def BOARD_SIZE_def is_draw_def
  board_to_tuple_def empty_board_eq

subsection \<open>\<open>argmax\<close> finds the first maximum\<close>

lemma argmax_scan_props:
  "(argmax_scan xs i best bi = bi \<and> (\<forall>x\<in>set xs. x \<le> best))
   \<or> (i \<le> argmax_scan xs i best bi \<and> argmax_scan xs i best bi < i + length xs
      \<and> best < xs ! (argmax_scan xs i best bi - i)
      \<and> (\<forall>x\<in>set xs. x \<le> xs ! (argmax_scan xs i best bi - i))
      \<and> (\<forall>j<argmax_scan xs i best bi - i. xs ! j < xs ! (argmax_scan xs i best bi - i)))"
proof (induction xs arbitrary: i best bi)
  case Nil
  then show ?case by simp
next
  case (Cons x xs)
  show ?case
  proof (cases "best < x")
    case True
    let ?r = "argmax_scan xs (Suc i) x i"
    from Cons.IH [of "Suc i" x i]
    consider (stay) "?r = i" "\<forall>y\<in>set xs. y \<le> x"
      | (move) "Suc i \<le> ?r" "?r < Suc i + length xs" "x < xs ! (?r - Suc i)"
          "\<forall>y\<in>set xs. y \<le> xs ! (?r - Suc i)" "\<forall>j<?r - Suc i. xs ! j < xs ! (?r - Suc i)"
      by blast
    then show ?thesis
    proof cases
      case stay
      with True show ?thesis by auto
    next
      case move
      then have idx: "?r - i = Suc (?r - Suc i)" by simp
      have "\<forall>j<?r - i. (x # xs) ! j < (x # xs) ! (?r - i)"
        using move idx by (auto simp add: nth_Cons split: nat.splits)
      moreover have "\<forall>y\<in>set (x # xs). y \<le> (x # xs) ! (?r - i)"
        using move idx by (auto simp add: less_imp_le)
      moreover have "best < (x # xs) ! (?r - i)"
        using move idx True by simp
      ultimately show ?thesis using True move by simp
    qed
  next
    case False
    let ?r = "argmax_scan xs (Suc i) best bi"
    from Cons.IH [of "Suc i" best bi]
    consider (stay) "?r = bi" "\<forall>y\<in>set xs. y \<le> best"
      | (move) "Suc i \<le> ?r" "?r < Suc i + length xs" "best < xs ! (?r - Suc i)"
          "\<forall>y\<in>set xs. y \<le> xs ! (?r - Suc i)" "\<forall>j<?r - Suc i. xs ! j < xs ! (?r - Suc i)"
      by blast
    then show ?thesis
    proof cases
      case stay
      with False show ?thesis by auto
    next
      case move
      then have idx: "?r - i = Suc (?r - Suc i)" by simp
      have "\<forall>j<?r - i. (x # xs) ! j < (x # xs) ! (?r - i)"
        using move idx False by (auto simp add: nth_Cons split: nat.splits)
      moreover have "\<forall>y\<in>set (x # xs). y \<le> (x # xs) ! (?r - i)"
        using move idx False by auto
      moreover have "best < (x # xs) ! (?r - i)"
        using move idx by simp
      ultimately show ?thesis using False move by simp
    qed
  qed
qed

lemma argmax_first_max:
  assumes "v \<noteq> []"
  shows "\<exists>i. argmax v = Inr i \<and> i < length v \<and> (\<forall>j<length v. v ! j \<le> v ! i)
             \<and> (\<forall>j<i. v ! j < v ! i)"
proof -
  from assms obtain x xs where v: "v = x # xs" by (cases v) auto
  let ?r = "argmax_scan xs 1 x 0"
  have am: "argmax v = Inr ?r" by (simp add: v argmax_def)
  from argmax_scan_props [of xs 1 x 0]
  consider (stay) "?r = 0" "\<forall>y\<in>set xs. y \<le> x"
    | (move) "1 \<le> ?r" "?r < 1 + length xs" "x < xs ! (?r - 1)"
        "\<forall>y\<in>set xs. y \<le> xs ! (?r - 1)" "\<forall>j<?r - 1. xs ! j < xs ! (?r - 1)"
    by auto
  then show ?thesis
  proof cases
    case stay
    then have "\<forall>j<length v. v ! j \<le> v ! ?r"
      by (auto simp add: v nth_Cons split: nat.splits)
    with am stay show ?thesis by (simp add: v)
  next
    case move
    then obtain m where m: "?r = Suc m" by (cases ?r) auto
    have "\<forall>j<length v. v ! j \<le> v ! ?r"
      using move m by (auto simp add: v nth_Cons less_imp_le split: nat.splits)
    moreover have "\<forall>j<?r. v ! j < v ! ?r"
      using move m by (auto simp add: v nth_Cons split: nat.splits)
    ultimately show ?thesis using am move by (simp add: v)
  qed
qed

lemma nth_argmax_Max:
  assumes "argmax nv = Inr b" and "nv \<noteq> []"
  shows "nv ! b = Max (set nv)"
proof -
  from argmax_first_max [OF assms(2)] assms(1)
  have b: "b < length nv" "\<forall>j<length nv. nv ! j \<le> nv ! b" by auto
  show ?thesis
  proof (rule sym, rule Max_eqI)
    show "finite (set nv)" by simp
    show "\<And>y. y \<in> set nv \<Longrightarrow> y \<le> nv ! b" using b by (auto simp add: in_set_conv_nth)
    show "nv ! b \<in> set nv" using b by simp
  qed
qed

subsection \<open>Boards of the right shape\<close>

lemma cell_wf: "wf_board b \<Longrightarrow> i < BOARD_SIZE \<Longrightarrow> j < BOARD_SIZE \<Longrightarrow> cell b i j = Inr (b ! i ! j)"
  by (simp add: cell_def wf_board_def list_all_length)

lemma wf_board_set_cell: "wf_board b \<Longrightarrow> wf_board (set_cell b i j mark)"
  by (cases "i < length b")
     (auto simp add: wf_board_def set_cell_def list_all_length nth_list_update)

lemma wf_board_empty: "wf_board empty_board"
  by (simp add: wf_board_def empty_board_def list_all_length)

lemma board_to_tuple_eqD: "board_to_tuple b1 = board_to_tuple b2 \<Longrightarrow> b1 = b2"
  by (auto simp add: board_to_tuple_def inj_on_def dest!: map_injective)

lemma all_cells_value:
  "(\<And>j. j \<in> set js \<Longrightarrow> get j = Inr (f j)) \<Longrightarrow>
   all_cells get player js = Inr (\<forall>j\<in>set js. f j = player)"
  by (induction js) auto

lemma or_else_Inr: "or_else (Inr x) (Inr y) = Inr (x \<or> y)"
  by (simp add: or_else_def)

lemma row_value:
  assumes "wf_board b" and "i < BOARD_SIZE"
  shows "all_cells (\<lambda>j. cell b i j) player [0..<BOARD_SIZE] = Inr (\<forall>j<BOARD_SIZE. b ! i ! j = player)"
  using all_cells_value [of "[0..<BOARD_SIZE]" "\<lambda>j. cell b i j" "\<lambda>j. b ! i ! j" player]
    cell_wf [OF assms]
  by auto

lemma column_value:
  assumes "wf_board b" and "i < BOARD_SIZE"
  shows "all_cells (\<lambda>j. cell b j i) player [0..<BOARD_SIZE] = Inr (\<forall>j<BOARD_SIZE. b ! j ! i = player)"
  using all_cells_value [of "[0..<BOARD_SIZE]" "\<lambda>j. cell b j i" "\<lambda>j. b ! j ! i" player]
    cell_wf [OF assms(1) _ assms(2)]
  by auto

lemma diagonal_value:
  assumes "wf_board b"
  shows "all_cells (\<lambda>i. cell b i i) player [0..<BOARD_SIZE] = Inr (\<forall>i<BOARD_SIZE. b ! i ! i = player)"
  using all_cells_value [of "[0..<BOARD_SIZE]" "\<lambda>i. cell b i i" "\<lambda>i. b ! i ! i" player]
    cell_wf [OF assms]
  by auto

lemma antidiagonal_value:
  assumes "wf_board b"
  shows "all_cells (\<lambda>i. cell b i (BOARD_SIZE - i - 1)) player [0..<BOARD_SIZE] =
         Inr (\<forall>i<BOARD_SIZE. b ! i ! (BOARD_SIZE - i - 1) = player)"
  using all_cells_value [of "[0..<BOARD_SIZE]" "\<lambda>i. cell b i (BOARD_SIZE - i - 1)"
      "\<lambda>i. b ! i ! (BOARD_SIZE - i - 1)" player]
    cell_wf [OF assms]
  by auto

lemma winner_lines_value:
  assumes "wf_board b" and "set is \<subseteq> {..<BOARD_SIZE}"
  shows "winner_lines b player is =
         Inr (\<exists>i\<in>set is. (\<forall>j<BOARD_SIZE. b ! i ! j = player) \<or> (\<forall>j<BOARD_SIZE. b ! j ! i = player))"
  using assms(2)
proof (induction "is")
  case Nil
  then show ?case by simp
next
  case (Cons i rest)
  then have i: "i < BOARD_SIZE" by simp
  from Cons have IH: "winner_lines b player rest =
         Inr (\<exists>i\<in>set rest. (\<forall>j<BOARD_SIZE. b ! i ! j = player) \<or> (\<forall>j<BOARD_SIZE. b ! j ! i = player))"
    by simp
  show ?case
    by (auto simp add: row_value [OF assms(1) i] column_value [OF assms(1) i] or_else_Inr IH)
qed

text \<open>On a board of the right shape \<open>is_winner\<close> raises nothing and answers whether a row, a
  column or one of the two diagonals is filled with the player's mark.\<close>

lemma is_winner_value:
  assumes "wf_board b"
  shows "is_winner b player =
         Inr ((\<exists>i<BOARD_SIZE. (\<forall>j<BOARD_SIZE. b ! i ! j = player) \<or> (\<forall>j<BOARD_SIZE. b ! j ! i = player))
              \<or> (\<forall>i<BOARD_SIZE. b ! i ! i = player)
              \<or> (\<forall>i<BOARD_SIZE. b ! i ! (BOARD_SIZE - i - 1) = player))"
proof -
  have lines: "winner_lines b player [0..<BOARD_SIZE] =
        Inr (\<exists>i<BOARD_SIZE. (\<forall>j<BOARD_SIZE. b ! i ! j = player) \<or> (\<forall>j<BOARD_SIZE. b ! j ! i = player))"
    using winner_lines_value [OF assms, of "[0..<BOARD_SIZE]" player]
    by (auto simp add: atLeast0LessThan)
  show ?thesis
    unfolding is_winner_def lines diagonal_value [OF assms] antidiagonal_value [OF assms] or_else_Inr
    by auto
qed

subsection \<open>Writes to the Q-table\<close>

lemma initialize_q_table_lookup:
  "initialize_q_table Q b k =
     (if k = board_to_tuple b \<and> Q k = None then Some (replicate (BOARD_SIZE * BOARD_SIZE) 0) else Q k)"
  by (auto simp add: initialize_q_table_def Let_def)

lemma update_q_table_Inr:
  assumes "update_q_table Q s a r s' = Inr Q'"
  shows "\<exists>v nv b. Q s = Some v \<and> Q s' = Some nv \<and> argmax nv = Inr b \<and> b < length nv \<and> a < length v
           \<and> Q' = Q(s \<mapsto> v[a := fadd (v ! a) (fmul LEARNING_RATE (fsub (fadd r (fmul DISCOUNT_FACTOR (nv ! b))) (v ! a)))])"
  using assms
  by (auto simp add: update_q_table_def Let_def split: option.splits sum.splits if_splits)

lemma update_q_table_defined:
  assumes "Q s = Some v" and "Q s' = Some nv" and "a < length v" and "nv \<noteq> []"
  shows "\<exists>b. argmax nv = Inr b \<and> b < length nv \<and> (\<forall>j<length nv. nv ! j \<le> nv ! b)
           \<and> (\<forall>j<b. nv ! j < nv ! b)
           \<and> update_q_table Q s a r s' =
               Inr (Q(s \<mapsto> v[a := fadd (v ! a) (fmul LEARNING_RATE (fsub (fadd r (fmul DISCOUNT_FACTOR (nv ! b))) (v ! a)))]))"
proof -
  from argmax_first_max [OF assms(4)] obtain b where
    b: "argmax nv = Inr b" "b < length nv" "\<forall>j<length nv. nv ! j \<le> nv ! b" "\<forall>j<b. nv ! j < nv ! b"
    by blast
  then show ?thesis using assms by (simp add: update_q_table_def Let_def)
qed

lemma table_ok_initialize: "table_ok Q \<Longrightarrow> table_ok (initialize_q_table Q b)"
  by (simp add: table_ok_def initialize_q_table_lookup)

lemma table_ok_update:
  assumes "table_ok Q" and "update_q_table Q s a r s' = Inr Q'"
  shows "table_ok Q'"
proof -
  from update_q_table_Inr [OF assms(2)] obtain v x where "Q s = Some v" "Q' = Q(s \<mapsto> v[a := x])"
    by blast
  with assms(1) show ?thesis by (auto simp add: table_ok_def)
qed

lemma table_ok_apply: "table_ok Q \<Longrightarrow> table_ok (apply_q_op Q x)"
  by (cases x) (auto simp add: table_ok_initialize table_ok_update split: sum.splits)

lemma table_ok_foldl: "table_ok Q \<Longrightarrow> table_ok (foldl apply_q_op Q ops)"
  by (induction ops arbitrary: Q) (simp_all add: table_ok_apply)

subsection \<open>The methods of the game\<close>

lemma end_game_unfold: "end_game Q g message = reset_game Q (showinfo ''Game Over'' message g)"
  unfolding end_game_def reset_game_def by (subst run.simps) simp

lemma reset_game_unfold:
  "reset_game Q g =
     (if self_current_player (clear g) = self_ai_symbol (clear g) then ai_move Q (clear g)
      else Some (Returns (clear g)))"
  unfolding ai_move_def reset_game_def by (subst run.simps) simp

lemma ai_move_unfold:
  "ai_move Q g =
     (case Q (board_to_tuple (self_board g)) of
        None \<Rightarrow> Some (Raises KeyError g)
      | Some v \<Rightarrow>
          (case argmax v of
             Inl e \<Rightarrow> Some (Raises e g)
           | Inr action \<Rightarrow>
               (case cell (self_board g) (action div BOARD_SIZE) (action mod BOARD_SIZE) of
                  Inl e \<Rightarrow> Some (Raises e g)
                | Inr c \<Rightarrow>
                    (if c = '' '' then
                       (let g1 = place g (action div BOARD_SIZE) (action mod BOARD_SIZE) (self_ai_symbol g)
                        in (case is_winner (self_board g1) (self_ai_symbol g) of
                              Inl e \<Rightarrow> Some (Raises e g1)
                            | Inr w \<Rightarrow>
                                (if w then end_game Q g1 (''AI ('' @ self_ai_symbol g @ '') wins!'')
                                 else if is_draw (self_board g1) then end_game Q g1 ''It's a draw!''
                                 else Some (Returns (g1\<lparr>self_current_player := self_human_symbol g\<rparr>)))))
                     else Some (Returns g)))))"
  unfolding ai_move_def end_game_def
  by (subst run.simps) (simp add: Let_def split: option.split sum.split)

lemma end_game_distinct_symbols:
  "self_human_symbol g \<noteq> self_ai_symbol g \<Longrightarrow>
   end_game Q g message = Some (Returns (clear (showinfo ''Game Over'' message g)))"
  by (simp add: end_game_unfold reset_game_unfold clear_def showinfo_def)

lemma ai_move_occupied:
  assumes "Q (board_to_tuple (self_board g)) = Some v" and "argmax v = Inr action"
    and "cell (self_board g) (action div BOARD_SIZE) (action mod BOARD_SIZE) = Inr c" and "c \<noteq> '' ''"
  shows "ai_move Q g = Some (Returns g)"
  using assms by (simp add: ai_move_unfold)

text \<open>When the two symbols differ, \<open>reset_game\<close> does not call \<open>ai_move\<close> again, so
  \<open>ai_move\<close> comes to an end: it returns or raises.\<close>

lemma ai_move_returns:
  assumes "self_human_symbol g \<noteq> self_ai_symbol g"
  shows "\<exists>r. ai_move Q g = Some r"
proof -
  have "self_human_symbol (place g i j m) \<noteq> self_ai_symbol (place g i j m)" for i j m
    using assms by (simp add: place_def)
  then show ?thesis
    by (simp add: ai_move_unfold Let_def end_game_distinct_symbols
        split: option.split sum.split)
qed

lemma make_move_not_humans_turn:
  assumes "self_current_player g \<noteq> self_human_symbol g"
  shows "\<exists>r. make_move Q g row col = Some r \<and> state_of r = g"
  using assms by (cases "cell (self_board g) row col") (simp_all add: make_move_def)

lemma clicks_not_humans_turn:
  assumes "self_current_player g \<noteq> self_human_symbol g"
  shows "clicks Q g cs = Some g"
proof (induction cs)
  case Nil
  then show ?case by simp
next
  case (Cons rc cs)
  obtain row col where rc: "rc = (row, col)" by (cases rc)
  from make_move_not_humans_turn [OF assms, of Q row col] obtain r where
    "make_move Q g row col = Some r" "state_of r = g" by blast
  with Cons rc show ?case by simp
qed

lemma ai_move_tie: "ai_move tie_Q game_O0 = Some (Returns game_O0_X1)"
  by (simp add: ai_move_unfold tie_Q_def game_O0_def game_O0_X1_def board_O0_def board_O0_X1_def
      tie_values_def argmax_def eval_board)

lemma make_move_first_click: "make_move Q game_O_start 0 0 = ai_move Q game_O0"
  by (simp add: make_move_def game_O_start_def game_O0_def board_O0_def eval_board)

subsection \<open>The exploration rate over the episodes\<close>

lemma train_episode_rate:
  assumes "train_episode ds G = Some (Inr (G', rest))"
  shows "g_EXPLORATION_RATE G' = decay (g_EXPLORATION_RATE G)"
  using assms
  by (auto simp add: train_episode_def decay_def Let_def split: option.splits sum.splits prod.splits)

lemma train_ai_add:
  "train_ai (k + m) ds G =
     (case train_ai k ds G of
        None \<Rightarrow> None
      | Some (Inl e) \<Rightarrow> Some (Inl e)
      | Some (Inr (Gk, rest)) \<Rightarrow> train_ai m rest Gk)"
  by (induction k arbitrary: ds G) (auto split: option.splits sum.splits prod.splits)

lemma train_ai_rate:
  "train_ai n ds G = Some (Inr (G', rest)) \<Longrightarrow>
   g_EXPLORATION_RATE G' = (decay ^^ n) (g_EXPLORATION_RATE G)"
proof (induction n arbitrary: ds G)
  case 0
  then show ?case by simp
next
  case (Suc n)
  from Suc.prems obtain G1 r1 where
    e: "train_episode ds G = Some (Inr (G1, r1))" and rest: "train_ai n r1 G1 = Some (Inr (G', rest))"
    by (auto split: option.splits sum.splits prod.splits)
  from Suc.IH [OF rest] train_episode_rate [OF e] show ?case by (simp add: funpow_swap1)
qed

text \<open>The first four steps from the rate 1, and the float64 number nearest to
  \<open>0.995 ^ 4\<close>.\<close>

lemma decay_4: "(decay ^^ 4) 1 = 275887557861383 / 281474976710656"
  by (simp add: eval_nat_numeral decay_def fmul_def EXPLORATION_DECAY_value
      round64_eval [of "- 1"] round_even_def power_int_minus)

lemma power_4_decay: "(0.995::real) ^ 4 = 0.980149500625"
  by (simp add: power_divide eval_nat_numeral)

lemma round64_decay_4: "round64 (0.995 ^ 4) = 8828401851564255 / 9007199254740992"
  unfolding power_4_decay
  by (simp add: round64_eval [of "- 1"] round_even_def power_int_minus)

text \<open>A step from a float64 number between 0 and 1 gives such a number again, and not a
  greater one.\<close>

lemma one_less_two_powi_1101: "(1::real) < 2 powi 1101"
  using power_int_strict_increasing [of 0 1101 "2::real"] by simp

lemma one_less_two_powi_1100: "(1::real) < 2 powi 1100"
  using power_int_strict_increasing [of 0 1100 "2::real"] by simp

lemma decay_in_unit_interval: "1 / 2 \<le> EXPLORATION_DECAY \<and> EXPLORATION_DECAY \<le> 1"
  by (simp add: EXPLORATION_DECAY_value)

lemma decay_step:
  assumes "0 \<le> r" and "r \<le> 1" and "round64 r = r"
  shows "0 \<le> decay r \<and> decay r \<le> r \<and> decay r \<le> 1 \<and> round64 (decay r) = decay r"
proof -
  define p where "p = r * EXPLORATION_DECAY"
  have D: "0 \<le> EXPLORATION_DECAY" "EXPLORATION_DECAY \<le> 1" using decay_in_unit_interval by auto
  have p0: "0 \<le> p" unfolding p_def using assms(1) D(1) by (rule mult_nonneg_nonneg)
  have pr: "p \<le> r" unfolding p_def using mult_left_mono [OF D(2) assms(1)] by simp
  have r1: "r < 2 powi 1101" using assms(2) one_less_two_powi_1101 by simp
  have r2: "r < 2 powi 1100" using assms(2) one_less_two_powi_1100 by simp
  have d: "decay r = round64 p" by (simp add: decay_def fmul_def p_def)
  have "0 \<le> round64 p" using p0 by (rule round64_nonneg)
  moreover have le: "round64 p \<le> r" using round64_mono [OF p0 pr r1] assms(3) by simp
  moreover have "round64 (round64 p) = round64 p"
  proof (rule round64_idem)
    show "0 \<le> p" by (rule p0)
    show "p < 2 powi 1100" using pr r2 by simp
  qed
  ultimately show ?thesis using assms(2) by (simp add: d)
qed

lemma decay_funpow_props:
  assumes "0 \<le> r" and "r \<le> 1" and "round64 r = r"
  shows "0 \<le> (decay ^^ k) r \<and> (decay ^^ k) r \<le> 1 \<and> round64 ((decay ^^ k) r) = (decay ^^ k) r"
proof (induction k)
  case 0
  then show ?case using assms by simp
next
  case (Suc k)
  then show ?case using decay_step [of "(decay ^^ k) r"] by simp
qed

lemma decay_funpow_antimono:
  assumes "0 \<le> r" and "r \<le> 1" and "round64 r = r"
  shows "(decay ^^ (k + m)) r \<le> (decay ^^ k) r"
proof (induction m)
  case 0
  then show ?case by simp
next
  case (Suc m)
  have "decay ((decay ^^ (k + m)) r) \<le> (decay ^^ (k + m)) r"
    using decay_funpow_props [OF assms, of "k + m"] decay_step [of "(decay ^^ (k + m)) r"] by simp
  with Suc show ?case by simp
qed

lemma rate_lower_upper:
  "0 \<le> rate_lower \<and> rate_lower \<le> 1 \<and> 0 \<le> rate_upper \<and> rate_upper \<le> 1
   \<and> 0.9949999999999 \<le> rate_lower \<and> rate_upper \<le> 0.9950000000001"
  by (simp add: rate_lower_def rate_upper_def power2_eq_square)

lemma decay_step_bounds:
  assumes "2 powi (- 1021) \<le> r" and "r \<le> 1"
  shows "r * rate_lower \<le> decay r \<and> decay r \<le> r * rate_upper"
proof -
  define u :: real where "u = 1 / 2 ^ 53"
  define D where "D = EXPLORATION_DECAY"
  define p where "p = r * D"
  have u: "0 \<le> u" "u \<le> 1" by (simp_all add: u_def)
  have D: "1 / 2 \<le> D" "D \<le> 1" "0.995 * (1 - u) \<le> D" "D \<le> 0.995 * (1 + u)"
    by (simp_all add: D_def u_def EXPLORATION_DECAY_value)
  have r0: "0 < r" using assms(1) two_powi_pos [of "- 1021"] by (rule less_le_trans [rotated])
  have p0: "0 \<le> p" unfolding p_def using r0 D(1) by simp
  have "2 powi (- 1022) = (2::real) powi (- 1021) / 2" using two_powi_pred [of "- 1021"] by simp
  also have "\<dots> \<le> r * (1 / 2)" using assms(1) by simp
  also have "\<dots> \<le> p" unfolding p_def using D(1) r0 by (intro mult_left_mono) simp_all
  finally have lo: "2 powi (- 1022) \<le> \<bar>p\<bar>" using p0 by simp
  have "p \<le> r * 1" unfolding p_def using D(2) r0 by (intro mult_left_mono) simp_all
  then have "p \<le> 1" using assms(2) by simp
  then have hi: "\<bar>p\<bar> < 2 powi 1101" using p0 one_less_two_powi_1101 by simp
  from round64_error [OF lo hi] p0 have e: "\<bar>round64 p - p\<bar> \<le> p * u" by (simp add: u_def)
  have l1: "r * (0.995 * (1 - u)) \<le> p" unfolding p_def using D(3) r0 by (intro mult_left_mono) simp_all
  have l2: "p \<le> r * (0.995 * (1 + u))" unfolding p_def using D(4) r0 by (intro mult_left_mono) simp_all
  have "r * (0.995 * (1 - u) ^ 2) = (r * (0.995 * (1 - u))) * (1 - u)"
    by (simp add: power2_eq_square)
  also have "\<dots> \<le> p * (1 - u)" using l1 u by (intro mult_right_mono) simp_all
  also have "\<dots> \<le> round64 p" using e by (simp add: algebra_simps abs_le_iff)
  finally have a: "r * (0.995 * (1 - u) ^ 2) \<le> round64 p" .
  have "round64 p \<le> p * (1 + u)" using e by (simp add: algebra_simps abs_le_iff)
  also have "\<dots> \<le> (r * (0.995 * (1 + u))) * (1 + u)" using l2 u by (intro mult_right_mono) simp_all
  also have "\<dots> = r * (0.995 * (1 + u) ^ 2)" by (simp add: power2_eq_square)
  finally have b: "round64 p \<le> r * (0.995 * (1 + u) ^ 2)" .
  have "decay r = round64 p" by (simp add: decay_def fmul_def p_def D_def)
  then show ?thesis using a b
    unfolding rate_lower_def rate_upper_def u_def by simp
qed

lemma decay_funpow_bounds:
  assumes "0 \<le> r" and "r \<le> 1" and "2 powi (- 1021) \<le> r * rate_lower ^ k"
  shows "r * rate_lower ^ k \<le> (decay ^^ k) r \<and> (decay ^^ k) r \<le> r * rate_upper ^ k"
  using assms(3)
proof (induction k)
  case 0
  then show ?case by simp
next
  case (Suc k)
  define x where "x = (decay ^^ k) r"
  have L: "0 \<le> rate_lower" "rate_lower \<le> 1" and U: "0 \<le> rate_upper" "rate_upper \<le> 1"
    using rate_lower_upper by auto
  have rl0: "0 \<le> r * rate_lower ^ k" using assms(1) L(1) by simp
  have "r * rate_lower ^ Suc k = (r * rate_lower ^ k) * rate_lower" by simp
  also have "\<dots> \<le> (r * rate_lower ^ k) * 1" using rl0 L(2) by (rule mult_left_mono [rotated])
  finally have "r * rate_lower ^ Suc k \<le> r * rate_lower ^ k" by simp
  with Suc.prems have "2 powi (- 1021) \<le> r * rate_lower ^ k" by simp
  from Suc.IH [OF this] have IH: "r * rate_lower ^ k \<le> x" "x \<le> r * rate_upper ^ k"
    by (simp_all add: x_def)
  have x0: "0 \<le> x" using rl0 IH(1) by simp
  have "rate_upper ^ k \<le> 1" using U by (simp add: power_le_one)
  then have "r * rate_upper ^ k \<le> r * 1" using assms(1) by (intro mult_left_mono) simp_all
  with IH(2) assms(2) have x1: "x \<le> 1" by simp
  have xl: "2 powi (- 1021) \<le> x" using \<open>2 powi (- 1021) \<le> r * rate_lower ^ k\<close> IH(1) by simp
  from decay_step_bounds [OF xl x1] have s: "x * rate_lower \<le> decay x" "decay x \<le> x * rate_upper"
    by simp_all
  have "r * rate_lower ^ Suc k = (r * rate_lower ^ k) * rate_lower" by simp
  also have "\<dots> \<le> x * rate_lower" using IH(1) L(1) by (rule mult_right_mono)
  also have "\<dots> \<le> decay x" by (rule s(1))
  finally have a: "r * rate_lower ^ Suc k \<le> decay x" .
  have "decay x \<le> x * rate_upper" by (rule s(2))
  also have "\<dots> \<le> (r * rate_upper ^ k) * rate_upper" using IH(2) U(1) by (rule mult_right_mono)
  also have "\<dots> = r * rate_upper ^ Suc k" by simp
  finally have b: "decay x \<le> r * rate_upper ^ Suc k" .
  show ?case using a b by (simp add: x_def)
qed

text \<open>The bounds of the thousandth power are taken in three stages,
  \<open>((x ^ 25) ^ 5) ^ 8\<close>, with fourteen decimals at each stage.\<close>

lemma lower_25: "0.88222024294658 \<le> (0.9949999999999::real) ^ 25"
  by (simp add: power_divide)

lemma upper_25: "(0.9950000000001::real) ^ 25 \<le> 0.88222024295102"
  by (simp add: power_divide)

lemma lower_125: "0.53442294164532 \<le> (0.88222024294658::real) ^ 5"
  by (simp add: power_divide)

lemma upper_125: "(0.88222024295102::real) ^ 5 \<le> 0.53442294165878"
  by (simp add: power_divide)

lemma lower_1000: "0.00665396857816 \<le> (0.53442294164532::real) ^ 8"
  by (simp add: power_divide)

lemma upper_1000: "(0.53442294165878::real) ^ 8 \<le> 0.00665396857951"
  by (simp add: power_divide)

lemma power_1000_split: "(x::real) ^ 1000 = ((x ^ 25) ^ 5) ^ 8"
proof -
  have "(1000::nat) = 25 * 5 * 8" by simp
  then have "x ^ 1000 = x ^ (25 * 5 * 8)" by (rule arg_cong)
  also have "\<dots> = ((x ^ 25) ^ 5) ^ 8" by (simp only: power_mult)
  finally show ?thesis .
qed

lemma rate_lower_1000: "0.00665 < rate_lower ^ 1000"
proof -
  have L: "0.9949999999999 \<le> rate_lower" using rate_lower_upper by blast
  have "(0.9949999999999::real) ^ 25 \<le> rate_lower ^ 25" by (rule power_mono [OF L]) simp
  with lower_25 have a: "0.88222024294658 \<le> rate_lower ^ 25" by (rule order_trans)
  have "(0.88222024294658::real) ^ 5 \<le> (rate_lower ^ 25) ^ 5" by (rule power_mono [OF a]) simp
  with lower_125 have b: "0.53442294164532 \<le> (rate_lower ^ 25) ^ 5" by (rule order_trans)
  have "(0.53442294164532::real) ^ 8 \<le> ((rate_lower ^ 25) ^ 5) ^ 8" by (rule power_mono [OF b]) simp
  with lower_1000 have c: "0.00665396857816 \<le> ((rate_lower ^ 25) ^ 5) ^ 8" by (rule order_trans)
  have "(0.00665::real) < 0.00665396857816" by simp
  from this c show ?thesis unfolding power_1000_split [of rate_lower] by (rule less_le_trans)
qed

lemma rate_upper_1000: "rate_upper ^ 1000 < 0.00666"
proof -
  have U: "rate_upper \<le> 0.9950000000001" "0 \<le> rate_upper" using rate_lower_upper by blast+
  have "rate_upper ^ 25 \<le> (0.9950000000001::real) ^ 25" by (rule power_mono [OF U])
  from this upper_25 have a: "rate_upper ^ 25 \<le> 0.88222024295102" by (rule order_trans)
  have "(rate_upper ^ 25) ^ 5 \<le> (0.88222024295102::real) ^ 5"
    by (rule power_mono [OF a]) (simp add: U(2))
  from this upper_125 have b: "(rate_upper ^ 25) ^ 5 \<le> 0.53442294165878" by (rule order_trans)
  have "((rate_upper ^ 25) ^ 5) ^ 8 \<le> (0.53442294165878::real) ^ 8"
    by (rule power_mono [OF b]) (simp add: U(2))
  from this upper_1000 have c: "((rate_upper ^ 25) ^ 5) ^ 8 \<le> 0.00665396857951" by (rule order_trans)
  have "(0.00665396857951::real) < 0.00666" by simp
  with c show ?thesis unfolding power_1000_split [of rate_upper] by (rule le_less_trans)
qed

lemma two_powi_tiny: "(2::real) powi (- 1021) \<le> 0.00665"
proof -
  have "(2::real) powi (- 1021) \<le> 2 powi (- 8)" by (rule power_int_increasing) simp_all
  also have "\<dots> \<le> 0.00665" by (simp add: power_int_minus)
  finally show ?thesis .
qed

lemma decayed_1000:
  "0.00665 < (decay ^^ EPISODES) EXPLORATION_RATE \<and> (decay ^^ EPISODES) EXPLORATION_RATE < 0.00666"
proof -
  have h: "2 powi (- 1021) \<le> 1 * rate_lower ^ 1000"
    using two_powi_tiny rate_lower_1000 by simp
  from decay_funpow_bounds [OF _ _ h]
  have "rate_lower ^ 1000 \<le> (decay ^^ 1000) 1" "(decay ^^ 1000) 1 \<le> rate_upper ^ 1000"
    by simp_all
  with rate_lower_1000 rate_upper_1000 show ?thesis
    unfolding EXPLORATION_RATE_one EPISODES_def by simp
qed

subsection \<open>The keys that training inserts\<close>

lemma has_O_nth: "has_O b \<longleftrightarrow> (\<exists>i<length b. \<exists>j<length (b ! i). b ! i ! j = ''O'')"
  by (auto simp add: has_O_def list_ex_length in_set_conv_nth)

lemma has_O_place_O:
  assumes "cell b i j = Inr c"
  shows "has_O (set_cell b i j ''O'')"
proof -
  from assms have r: "i < length b" "j < length (b ! i)"
    by (auto simp add: cell_def split: if_splits)
  then have "set_cell b i j ''O'' ! i ! j = ''O''" by (simp add: set_cell_def)
  moreover from r have "i < length (set_cell b i j ''O'')" "j < length (set_cell b i j ''O'' ! i)"
    by (simp_all add: set_cell_def)
  ultimately show ?thesis unfolding has_O_nth by blast
qed

lemma has_O_place_on_empty:
  assumes "has_O b" and "cell b i j = Inr '' ''"
  shows "has_O (set_cell b i j mark)"
proof -
  from assms(2) have r: "i < length b" "j < length (b ! i)" "b ! i ! j = '' ''"
    by (auto simp add: cell_def split: if_splits)
  from assms(1) obtain p q where pq: "p < length b" "q < length (b ! p)" "b ! p ! q = ''O''"
    unfolding has_O_nth by blast
  with r have ne: "p \<noteq> i \<or> q \<noteq> j" by auto
  have "p < length (set_cell b i j mark)" using pq by (simp add: set_cell_def)
  moreover have "q < length (set_cell b i j mark ! p)"
    using pq r by (cases "p = i") (simp_all add: set_cell_def)
  moreover have "set_cell b i j mark ! p ! q = ''O''"
    using pq r ne by (cases "p = i") (auto simp add: set_cell_def)
  ultimately show ?thesis unfolding has_O_nth by blast
qed

lemma keys_initialize:
  assumes "keys_from_training Q" and "b = empty_board \<or> has_O b"
  shows "keys_from_training (initialize_q_table Q b)"
  using assms by (auto simp add: keys_from_training_def initialize_q_table_lookup split: if_splits)

lemma keys_update:
  assumes "keys_from_training Q" and "update_q_table Q s a r s' = Inr Q'"
  shows "keys_from_training Q'"
proof -
  from update_q_table_Inr [OF assms(2)] obtain v x where "Q s = Some v" "Q' = Q(s \<mapsto> v[a := x])"
    by blast
  with assms(1) show ?thesis by (auto simp add: keys_from_training_def)
qed

lemma train_turn_ok:
  assumes "episode_ok t" and "train_turn exploration_rate d t = Inr t'"
  shows "episode_ok t'"
proof -
  from assms(2) obtain action where
    a: "choose_action (t_Q t) (t_state t) exploration_rate d = Inr action"
    by (auto simp add: train_turn_def split: sum.splits)
  let ?row = "action div BOARD_SIZE" and ?col = "action mod BOARD_SIZE"
  from assms(2) a obtain c where c: "cell (t_board t) ?row ?col = Inr c"
    by (auto simp add: train_turn_def Let_def split: sum.splits)
  show ?thesis
  proof (cases "c = '' ''")
    case False
    with assms(2) a c have "t' = t" by (simp add: train_turn_def Let_def)
    with assms(1) show ?thesis by simp
  next
    case True
    let ?b = "set_cell (t_board t) ?row ?col (t_current_player t)"
    from assms(2) a c True obtain w Q' reward where
      u: "update_q_table (initialize_q_table (t_Q t) ?b) (t_state t) action reward (board_to_tuple ?b) = Inr Q'"
      and t': "t_Q t' = Q'" "t_board t' = ?b"
      by (auto simp add: train_turn_def Let_def split: sum.splits)
    have O: "has_O ?b"
    proof (cases "has_O (t_board t)")
      case True
      then show ?thesis using c \<open>c = '' ''\<close> by (simp add: has_O_place_on_empty)
    next
      case False
      with assms(1) have "t_current_player t = ''O''" by (simp add: episode_ok_def)
      then show ?thesis using c by (simp add: has_O_place_O)
    qed
    have "keys_from_training (initialize_q_table (t_Q t) ?b)"
      using assms(1) O by (simp add: keys_initialize episode_ok_def)
    then have "keys_from_training Q'" using u by (rule keys_update)
    with O t' show ?thesis by (simp add: episode_ok_def)
  qed
qed

lemma train_loop_ok:
  "episode_ok t \<Longrightarrow> train_loop exploration_rate ds t = Some (Inr (t', rest)) \<Longrightarrow> episode_ok t'"
proof (induction ds arbitrary: t)
  case Nil
  then show ?case by (simp split: if_splits)
next
  case (Cons d ds)
  show ?case
  proof (cases "t_done t")
    case True
    with Cons.prems show ?thesis by simp
  next
    case False
    with Cons.prems(2) obtain t1 where
      s: "train_turn exploration_rate d t = Inr t1"
      and l: "train_loop exploration_rate ds t1 = Some (Inr (t', rest))"
      by (auto split: sum.splits)
    from train_turn_ok [OF Cons.prems(1) s] l show ?thesis by (rule Cons.IH)
  qed
qed

lemma train_episode_keys:
  assumes "keys_from_training (g_Q G)" and "train_episode ds G = Some (Inr (G', rest))"
  shows "keys_from_training (g_Q G')"
proof -
  let ?t = "\<lparr>t_Q = initialize_q_table (g_Q G) empty_board, t_board = empty_board,
             t_state = board_to_tuple empty_board, t_current_player = ''O'', t_done = False\<rparr>"
  from assms(2) obtain t' where
    l: "train_loop (g_EXPLORATION_RATE G) ds ?t = Some (Inr (t', rest))" and q: "g_Q G' = t_Q t'"
    by (auto simp add: train_episode_def Let_def split: option.splits sum.splits prod.splits)
  have "episode_ok ?t" using assms(1) by (simp add: episode_ok_def keys_initialize)
  from train_loop_ok [OF this l] q show ?thesis by (simp add: episode_ok_def)
qed

lemma train_ai_keys:
  "keys_from_training (g_Q G) \<Longrightarrow> train_ai n ds G = Some (Inr (G', rest)) \<Longrightarrow>
   keys_from_training (g_Q G')"
proof (induction n arbitrary: ds G)
  case 0
  then show ?case by simp
next
  case (Suc n)
  from Suc.prems(2) obtain G1 r1 where
    e: "train_episode ds G = Some (Inr (G1, r1))" and r: "train_ai n r1 G1 = Some (Inr (G', rest))"
    by (auto split: option.splits sum.splits prod.splits)
  from train_episode_keys [OF Suc.prems(1) e] r show ?case by (rule Suc.IH)
qed

lemma board_X0_not_trained:
  assumes "keys_from_training Q"
  shows "Q (board_to_tuple board_X0) = None"
proof (rule ccontr)
  assume "Q (board_to_tuple board_X0) \<noteq> None"
  with assms have "board_to_tuple board_X0 = board_to_tuple empty_board
      \<or> (\<exists>b. board_to_tuple board_X0 = board_to_tuple b \<and> has_O b)"
    by (simp add: keys_from_training_def)
  then have "board_X0 = empty_board \<or> has_O board_X0"
    by (auto dest!: board_to_tuple_eqD)
  then show False by (simp add: board_X0_def empty_board_eq has_O_def)
qed

subsection \<open>Training raises no exception\<close>

lemma choose_action_safe:
  assumes "table_ok Q" and "Q state \<noteq> None" and "randint d < BOARD_SIZE * BOARD_SIZE"
  shows "\<exists>action. choose_action Q state exploration_rate d = Inr action \<and> action < BOARD_SIZE * BOARD_SIZE"
proof (cases "uniform d < exploration_rate")
  case True
  with assms(3) show ?thesis by (simp add: choose_action_def)
next
  case False
  from assms(2) obtain v where v: "Q state = Some v" by auto
  with assms(1) have len: "length v = BOARD_SIZE * BOARD_SIZE" by (simp add: table_ok_def)
  then have "v \<noteq> []" using BOARD_SIZE_pos by auto
  from argmax_first_max [OF this] obtain i where "argmax v = Inr i" "i < length v" by blast
  with False v len show ?thesis by (simp add: choose_action_def)
qed

lemma train_turn_safe:
  assumes "episode_safe t" and "randint d < BOARD_SIZE * BOARD_SIZE"
  shows "\<exists>t'. train_turn exploration_rate d t = Inr t' \<and> episode_safe t'"
proof -
  from assms(1) have wf: "wf_board (t_board t)" and ok: "table_ok (t_Q t)"
    and st: "t_Q t (t_state t) \<noteq> None"
    by (simp_all add: episode_safe_def)
  from choose_action_safe [OF ok st assms(2)] obtain action where
    a: "choose_action (t_Q t) (t_state t) exploration_rate d = Inr action"
    and ar: "action < BOARD_SIZE * BOARD_SIZE"
    by blast
  let ?row = "action div BOARD_SIZE" and ?col = "action mod BOARD_SIZE"
  have row: "?row < BOARD_SIZE" using ar by (simp add: less_mult_imp_div_less)
  have col: "?col < BOARD_SIZE" using BOARD_SIZE_pos by simp
  have c: "cell (t_board t) ?row ?col = Inr (t_board t ! ?row ! ?col)"
    by (rule cell_wf [OF wf row col])
  show ?thesis
  proof (cases "t_board t ! ?row ! ?col = '' ''")
    case False
    with a c assms(1) show ?thesis by (simp add: train_turn_def Let_def)
  next
    case True
    let ?b = "set_cell (t_board t) ?row ?col (t_current_player t)"
    let ?Q1 = "initialize_q_table (t_Q t) ?b"
    have wfb: "wf_board ?b" using wf by (rule wf_board_set_cell)
    obtain w where w: "is_winner ?b (t_current_player t) = Inr w"
      using is_winner_value [OF wfb] by blast
    have ok1: "table_ok ?Q1" using ok by (rule table_ok_initialize)
    from st obtain v where v: "?Q1 (t_state t) = Some v"
      by (auto simp add: initialize_q_table_lookup)
    obtain nv where nv: "?Q1 (board_to_tuple ?b) = Some nv"
      by (cases "t_Q t (board_to_tuple ?b)") (auto simp add: initialize_q_table_lookup)
    from ok1 v nv have len: "length v = BOARD_SIZE * BOARD_SIZE" "length nv = BOARD_SIZE * BOARD_SIZE"
      by (simp_all add: table_ok_def)
    then have av: "action < length v" and ne: "nv \<noteq> []" using ar by auto
    let ?reward = "if w then (if t_current_player t = ''O'' then 1 else - 1) else (0::real)"
    from update_q_table_defined [OF v nv av ne, of ?reward] obtain x where
      u: "update_q_table ?Q1 (t_state t) action ?reward (board_to_tuple ?b) = Inr (?Q1(t_state t \<mapsto> v[action := x]))"
      by blast
    let ?t' = "\<lparr>t_Q = ?Q1(t_state t \<mapsto> v[action := x]), t_board = ?b, t_state = board_to_tuple ?b,
               t_current_player = (if t_current_player t = ''O'' then ''X'' else ''O''),
               t_done = (if w then True else if is_draw ?b then True else t_done t)\<rparr>"
    have "train_turn exploration_rate d t = Inr ?t'"
      using a c True w u by (simp add: train_turn_def Let_def)
    moreover have "table_ok (?Q1(t_state t \<mapsto> v[action := x]))"
      using ok1 u by (rule table_ok_update)
    then have "episode_safe ?t'" using wfb nv by (simp add: episode_safe_def)
    ultimately show ?thesis by blast
  qed
qed

lemma train_loop_safe:
  "episode_safe t \<Longrightarrow> draws_in_range ds \<Longrightarrow>
   train_loop exploration_rate ds t = None
   \<or> (\<exists>t' rest. train_loop exploration_rate ds t = Some (Inr (t', rest))
         \<and> episode_safe t' \<and> draws_in_range rest)"
proof (induction ds arbitrary: t)
  case Nil
  then show ?case by simp
next
  case (Cons d ds)
  show ?case
  proof (cases "t_done t")
    case True
    with Cons.prems show ?thesis by simp
  next
    case False
    from Cons.prems(2) have d: "randint d < BOARD_SIZE * BOARD_SIZE" and ds: "draws_in_range ds"
      by (simp_all add: draws_in_range_def)
    from train_turn_safe [OF Cons.prems(1) d] obtain t1 where
      s: "train_turn exploration_rate d t = Inr t1" and ok: "episode_safe t1" by blast
    from Cons.IH [OF ok ds] False s show ?thesis by simp
  qed
qed

lemma train_episode_safe:
  assumes "table_ok (g_Q G)" and "draws_in_range ds"
  shows "train_episode ds G = None
       \<or> (\<exists>G' rest. train_episode ds G = Some (Inr (G', rest)) \<and> table_ok (g_Q G') \<and> draws_in_range rest)"
proof -
  let ?t = "\<lparr>t_Q = initialize_q_table (g_Q G) empty_board, t_board = empty_board,
             t_state = board_to_tuple empty_board, t_current_player = ''O'', t_done = False\<rparr>"
  have "initialize_q_table (g_Q G) empty_board (board_to_tuple empty_board) \<noteq> None"
    by (cases "g_Q G (board_to_tuple empty_board)") (auto simp add: initialize_q_table_lookup)
  then have "episode_safe ?t"
    using assms(1) by (simp add: episode_safe_def wf_board_empty table_ok_initialize)
  from train_loop_safe [OF this assms(2), of "g_EXPLORATION_RATE G"] show ?thesis
    by (auto simp add: train_episode_def Let_def episode_safe_def)
qed

text \<open>With a table whose entries have the right length and with random indices in range,
  training either runs out of random draws or returns: no lookup of the table and no read of
  the board raises.\<close>

lemma train_ai_never_raises:
  "table_ok (g_Q G) \<Longrightarrow> draws_in_range ds \<Longrightarrow> train_ai n ds G \<noteq> Some (Inl e)"
proof (induction n arbitrary: ds G)
  case 0
  then show ?case by simp
next
  case (Suc n)
  from train_episode_safe [OF Suc.prems] show ?case
  proof (elim disjE exE conjE)
    assume "train_episode ds G = None"
    then show ?thesis by simp
  next
    fix G' rest
    assume "train_episode ds G = Some (Inr (G', rest))" and "table_ok (g_Q G')" and "draws_in_range rest"
    with Suc.IH [of G' rest] show ?thesis by simp
  qed
qed

subsection \<open>One episode on concrete draws\<close>

text \<open>One episode on \<open>example_draws\<close> returns; in the table it leaves, the entry of the
  board with the single \<^verbatim>\<open>'O'\<close> on the first cell holds zeros only.\<close>

lemma trained_example:
  "\<exists>G. train_ai (Suc 0) example_draws initial_globals = Some (Inr (G, []))
       \<and> g_Q G (board_to_tuple board_O0) = Some zeros25"
  by (simp add: train_episode_def initial_globals_def example_draws_def explore_def Let_def
     train_turn_def choose_action_def EXPLORATION_RATE_one initialize_q_table_def update_q_table_def
     argmax_def replicate_25 fadd_def fsub_def fmul_def round64_LEARNING_RATE board_O0_def
     zeros25_def eval_board)

section \<open>The claims\<close>

subsection \<open>Draw detection\<close>

text \<open>
  C1 (the code differs). The claim: \<open>is_draw\<close> is true iff every cell is non-empty and
  \<open>is_winner\<close> is false for both players. The function only tests that the board is full:
  on the full board \<open>full_board_o_wins\<close>, where \<^verbatim>\<open>'O'\<close> holds the first row,
  \<open>is_winner\<close> answers true for \<^verbatim>\<open>'O'\<close> and \<open>is_draw\<close> answers true as well.
\<close>

theorem is_draw_ignores_winner:
  "wf_board full_board_o_wins
   \<and> is_winner full_board_o_wins ''O'' = Inr True
   \<and> is_winner full_board_o_wins ''X'' = Inr False
   \<and> is_draw full_board_o_wins = True"
  by (simp add: wf_board_def full_board_o_wins_def is_winner_def is_draw_def
      upt_5 or_else_def cell_def BOARD_SIZE_def)

subsection \<open>Training: an action on an occupied cell\<close>

text \<open>
  C2 (amended). When the action chosen in the training loop points to an occupied cell, the
  pass through the loop body changes nothing: the board, the state key, the player to move,
  the flag \<open>done\<close> and the Q-table are as before (\<open>update_q_table\<close> is not called and the
  players do not alternate), and the loop goes on with the next random draw.
\<close>

theorem train_turn_occupied_is_skipped:
  assumes "choose_action (t_Q t) (t_state t) exploration_rate d = Inr action"
    and "cell (t_board t) (action div BOARD_SIZE) (action mod BOARD_SIZE) = Inr c"
    and "c \<noteq> '' ''"
  shows "train_turn exploration_rate d t = Inr t
       \<and> (\<not> t_done t \<longrightarrow> train_loop exploration_rate (d # ds) t = train_loop exploration_rate ds t)"
  using assms by (simp add: train_turn_def Let_def)

theorem train_turn_occupied_is_skipped_witness:
  "choose_action (t_Q episode_O0) (t_state episode_O0) 1 (explore 0) = Inr 0
   \<and> cell (t_board episode_O0) (0 div BOARD_SIZE) (0 mod BOARD_SIZE) = Inr ''O''
   \<and> \<not> t_done episode_O0
   \<and> train_turn 1 (explore 0) episode_O0 = Inr episode_O0
   \<and> train_loop 1 [explore 0] episode_O0 = None"
proof -
  have h1: "choose_action (t_Q episode_O0) (t_state episode_O0) 1 (explore 0) = Inr 0"
    by (simp add: choose_action_def explore_def)
  have h2: "cell (t_board episode_O0) (0 div BOARD_SIZE) (0 mod BOARD_SIZE) = Inr ''O''"
    by (simp add: episode_O0_def board_O0_def cell_def)
  have h3: "''O'' \<noteq> '' ''" by simp
  have h4: "\<not> t_done episode_O0" by (simp add: episode_O0_def)
  from train_turn_occupied_is_skipped [OF h1 h2 h3, of "[]"] h4
  have "train_turn 1 (explore 0) episode_O0 = Inr episode_O0"
    and "train_loop 1 [explore 0] episode_O0 = train_loop 1 [] episode_O0"
    by simp_all
  then show ?thesis using h1 h2 h4 by simp
qed

text \<open>The claim as it was stated fails: in \<open>episode_O0\<close> the draw \<open>explore 0\<close> picks the
  occupied cell 0; afterwards it is still the turn of \<^verbatim>\<open>'X'\<close>, and the table is not
  the one that \<open>update_q_table\<close> with the state as its own next state and reward 0 would
  have produced. So the pass does not end in the episode the claim describes: the same
  board, the updated table and \<^verbatim>\<open>'O'\<close> to move.\<close>

theorem train_turn_occupied_counterexample:
  "choose_action (t_Q episode_O0) (t_state episode_O0) 1 (explore 0) = Inr 0
   \<and> cell (t_board episode_O0) (0 div BOARD_SIZE) (0 mod BOARD_SIZE) = Inr ''O''
   \<and> train_turn 1 (explore 0) episode_O0 = Inr episode_O0
   \<and> t_current_player episode_O0 = ''X''
   \<and> update_q_table (t_Q episode_O0) (t_state episode_O0) 0 0 (t_state episode_O0)
       = Inr ((t_Q episode_O0)(t_state episode_O0 \<mapsto> next_values[0 := 1297036692682703 / 18014398509481984]))
   \<and> (t_Q episode_O0)(t_state episode_O0 \<mapsto> next_values[0 := 1297036692682703 / 18014398509481984]) \<noteq> t_Q episode_O0
   \<and> train_turn 1 (explore 0) episode_O0
       \<noteq> Inr (episode_O0
               \<lparr>t_Q := (t_Q episode_O0)(t_state episode_O0 \<mapsto> next_values[0 := 1297036692682703 / 18014398509481984]),
                t_current_player := ''O''\<rparr>)"
proof -
  have h1: "choose_action (t_Q episode_O0) (t_state episode_O0) 1 (explore 0) = Inr 0"
    by (simp add: choose_action_def explore_def)
  have h2: "cell (t_board episode_O0) (0 div BOARD_SIZE) (0 mod BOARD_SIZE) = Inr ''O''"
    by (simp add: episode_O0_def board_O0_def cell_def)
  have h3: "train_turn 1 (explore 0) episode_O0 = Inr episode_O0"
    using h1 h2 by (simp add: train_turn_def Let_def)
  have am: "argmax next_values = Inr 7" by (rule argmax_next_values)
  have nv: "next_values ! 7 = round64 0.8" "next_values ! 0 = 0" "0 < length next_values"
    "7 < length next_values"
    by (simp_all add: next_values_def)
  have h5: "update_q_table (t_Q episode_O0) (t_state episode_O0) 0 0 (t_state episode_O0)
       = Inr ((t_Q episode_O0)(t_state episode_O0 \<mapsto> next_values[0 := 1297036692682703 / 18014398509481984]))"
    using am nv
    by (simp add: update_q_table_def episode_O0_def example_Q_def Let_def q_update_four_fifths)
  have "((t_Q episode_O0)(t_state episode_O0 \<mapsto> next_values[0 := 1297036692682703 / 18014398509481984])) (t_state episode_O0)
        \<noteq> t_Q episode_O0 (t_state episode_O0)"
    by (simp add: episode_O0_def example_Q_def next_values_def round64_four_fifths)
  then have h6: "(t_Q episode_O0)(t_state episode_O0 \<mapsto> next_values[0 := 1297036692682703 / 18014398509481984]) \<noteq> t_Q episode_O0"
    by metis
  have h7: "train_turn 1 (explore 0) episode_O0
       \<noteq> Inr (episode_O0
               \<lparr>t_Q := (t_Q episode_O0)(t_state episode_O0 \<mapsto> next_values[0 := 1297036692682703 / 18014398509481984]),
                t_current_player := ''O''\<rparr>)"
    unfolding h3 by (simp add: episode_O0_def)
  have h4: "t_current_player episode_O0 = ''X''" by (simp add: episode_O0_def)
  from h1 h2 h3 h4 h5 h6 h7 show ?thesis by blast
qed

subsection \<open>The Q-learning update\<close>

text \<open>
  C3 (amended). When the table has entries for the state \<open>s\<close> and the next state \<open>s'\<close>
  and \<open>a\<close> is an index of the entry of \<open>s\<close>, \<open>update_q_table\<close> returns, the best
  next action \<open>b\<close> is \<open>argmax\<close> of the entry of \<open>s'\<close> and its value is the maximum of
  that entry, the value at \<open>(s, a)\<close> becomes the float64 result of
  \<open>value + LEARNING_RATE * (r + DISCOUNT_FACTOR * value(s', b) - value)\<close>, the product,
  the sum, the difference, the second product and the last sum each rounded to float64, and
  no other component of that entry and no entry of another key changes. With an old value
  0, a maximum of \<^verbatim>\<open>0.8\<close> in the next state and reward 0 the new value is
  \<open>1297036692682703 / 2 ^ 54\<close>, which Python prints as \<^verbatim>\<open>0.07200000000000001\<close>: it
  is greater than 0.072, by less than \<open>1 / 2 ^ 56\<close>.
\<close>

theorem update_q_table_rule:
  assumes "Q s = Some v" and "Q s' = Some nv" and "a < length v" and "nv \<noteq> []"
  shows "\<exists>Q' v' b. update_q_table Q s a r s' = Inr Q'
           \<and> argmax nv = Inr b \<and> nv ! b = Max (set nv)
           \<and> Q' s = Some v' \<and> length v' = length v
           \<and> v' ! a = fadd (v ! a) (fmul LEARNING_RATE (fsub (fadd r (fmul DISCOUNT_FACTOR (nv ! b))) (v ! a)))
           \<and> (\<forall>i<length v. i \<noteq> a \<longrightarrow> v' ! i = v ! i)
           \<and> (\<forall>k. k \<noteq> s \<longrightarrow> Q' k = Q k)
           \<and> (v ! a = 0 \<and> Max (set nv) = round64 0.8 \<and> r = 0 \<longrightarrow>
                  v' ! a = 1297036692682703 / 18014398509481984 \<and> 0.072 < v' ! a \<and> v' ! a < 0.072 + 1 / 2 ^ 56)"
proof -
  from update_q_table_defined [OF assms, of r] obtain b where
    b: "argmax nv = Inr b"
    and upd: "update_q_table Q s a r s' =
      Inr (Q(s \<mapsto> v[a := fadd (v ! a) (fmul LEARNING_RATE (fsub (fadd r (fmul DISCOUNT_FACTOR (nv ! b))) (v ! a)))]))"
    by blast
  have mx: "nv ! b = Max (set nv)" by (rule nth_argmax_Max [OF b assms(4)])
  define x where "x = fadd (v ! a) (fmul LEARNING_RATE (fsub (fadd r (fmul DISCOUNT_FACTOR (nv ! b))) (v ! a)))"
  have ex: "v ! a = 0 \<and> Max (set nv) = round64 0.8 \<and> r = 0 \<longrightarrow>
              x = 1297036692682703 / 18014398509481984 \<and> 0.072 < x \<and> x < 0.072 + 1 / 2 ^ 56"
  proof
    assume "v ! a = 0 \<and> Max (set nv) = round64 0.8 \<and> r = 0"
    then have "x = 1297036692682703 / 18014398509481984"
      unfolding x_def using mx by (simp only: q_update_example)
    then show "x = 1297036692682703 / 18014398509481984 \<and> 0.072 < x \<and> x < 0.072 + 1 / 2 ^ 56"
      by simp
  qed
  have va: "v[a := x] ! a = x" using assms(3) by simp
  show ?thesis
  proof (intro exI conjI)
    show "update_q_table Q s a r s' = Inr (Q(s \<mapsto> v[a := x]))" unfolding x_def by (rule upd)
    show "argmax nv = Inr b" by (rule b)
    show "nv ! b = Max (set nv)" by (rule mx)
    show "(Q(s \<mapsto> v[a := x])) s = Some (v[a := x])" by simp
    show "length (v[a := x]) = length v" by simp
    show "v[a := x] ! a = fadd (v ! a) (fmul LEARNING_RATE (fsub (fadd r (fmul DISCOUNT_FACTOR (nv ! b))) (v ! a)))"
      unfolding va by (rule x_def)
    show "\<forall>i<length v. i \<noteq> a \<longrightarrow> v[a := x] ! i = v ! i" by simp
    show "\<forall>k. k \<noteq> s \<longrightarrow> (Q(s \<mapsto> v[a := x])) k = Q k" by simp
    show "v ! a = 0 \<and> Max (set nv) = round64 0.8 \<and> r = 0 \<longrightarrow>
            v[a := x] ! a = 1297036692682703 / 18014398509481984 \<and> 0.072 < v[a := x] ! a \<and> v[a := x] ! a < 0.072 + 1 / 2 ^ 56"
      unfolding va by (rule ex)
  qed
qed

theorem update_q_table_rule_witness:
  "example_Q (board_to_tuple empty_board) = Some zeros25
   \<and> example_Q (board_to_tuple board_O0) = Some next_values
   \<and> 3 < length zeros25 \<and> next_values \<noteq> []
   \<and> zeros25 ! 3 = 0 \<and> Max (set next_values) = round64 0.8
   \<and> (\<exists>Q' v'. update_q_table example_Q (board_to_tuple empty_board) 3 0 (board_to_tuple board_O0) = Inr Q'
         \<and> Q' (board_to_tuple empty_board) = Some v' \<and> v' ! 3 = 1297036692682703 / 18014398509481984)"
proof -
  have k: "board_to_tuple empty_board \<noteq> board_to_tuple board_O0"
    by (simp add: board_to_tuple_def empty_board_eq board_O0_def)
  have h1: "example_Q (board_to_tuple empty_board) = Some zeros25"
    using k by (simp add: example_Q_def)
  have h2: "example_Q (board_to_tuple board_O0) = Some next_values"
    by (simp add: example_Q_def)
  have h3: "3 < length zeros25" by (simp add: zeros25_def)
  have h4: "next_values \<noteq> []" by (simp add: next_values_def)
  have h5: "zeros25 ! 3 = 0" by (simp add: zeros25_def)
  have h6: "Max (set next_values) = round64 0.8" by (rule Max_next_values)
  from update_q_table_rule [OF h1 h2 h3 h4, of 0] h5 h6
  show ?thesis using h1 h2 h3 h4 by auto
qed

text \<open>The claim as it was stated fails in float64: with the old value 0, the maximum
  \<^verbatim>\<open>0.8\<close> in the next state and reward 0, the value that \<open>update_q_table\<close> stores is
  neither the real number 0.072, nor the float64 number nearest to it (the one below), nor
  the exact value of \<open>value + LEARNING_RATE * (r + DISCOUNT_FACTOR * best - value)\<close> on
  the float64 constants.\<close>

theorem update_q_table_counterexample:
  "example_Q (board_to_tuple empty_board) = Some zeros25
   \<and> example_Q (board_to_tuple board_O0) = Some next_values
   \<and> zeros25 ! 3 = 0 \<and> Max (set next_values) = round64 0.8
   \<and> update_q_table example_Q (board_to_tuple empty_board) 3 0 (board_to_tuple board_O0)
       = Inr (example_Q(board_to_tuple empty_board \<mapsto> zeros25[3 := 1297036692682703 / 18014398509481984]))
   \<and> zeros25[3 := 1297036692682703 / 18014398509481984] ! 3 \<noteq> 0.072
   \<and> zeros25[3 := 1297036692682703 / 18014398509481984] ! 3 \<noteq> round64 0.072
   \<and> zeros25[3 := 1297036692682703 / 18014398509481984] ! 3
       \<noteq> zeros25 ! 3 + LEARNING_RATE * (0 + DISCOUNT_FACTOR * Max (set next_values) - zeros25 ! 3)"
proof -
  have k: "board_to_tuple empty_board \<noteq> board_to_tuple board_O0"
    by (simp add: board_to_tuple_def empty_board_eq board_O0_def)
  have h1: "example_Q (board_to_tuple empty_board) = Some zeros25"
    using k by (simp add: example_Q_def)
  have h2: "example_Q (board_to_tuple board_O0) = Some next_values"
    by (simp add: example_Q_def)
  have h5: "zeros25 ! 3 = 0" "3 < length zeros25" by (simp_all add: zeros25_def)
  have h6: "Max (set next_values) = round64 0.8" by (rule Max_next_values)
  have am: "argmax next_values = Inr 7" by (rule argmax_next_values)
  have nv: "next_values ! 7 = round64 0.8" "7 < length next_values"
    by (simp_all add: next_values_def)
  have u: "update_q_table example_Q (board_to_tuple empty_board) 3 0 (board_to_tuple board_O0)
       = Inr (example_Q(board_to_tuple empty_board \<mapsto> zeros25[3 := 1297036692682703 / 18014398509481984]))"
    using h1 h2 h5 am nv by (simp add: update_q_table_def Let_def q_update_four_fifths)
  have n: "zeros25[3 := 1297036692682703 / 18014398509481984] ! 3 = 1297036692682703 / 18014398509481984" using h5(2) by simp
  have n1: "zeros25[3 := 1297036692682703 / 18014398509481984] ! 3 \<noteq> 0.072" unfolding n by simp
  have n2: "zeros25[3 := 1297036692682703 / 18014398509481984] ! 3 \<noteq> round64 0.072" unfolding n round64_0072 by simp
  have n3: "zeros25[3 := 1297036692682703 / 18014398509481984] ! 3
       \<noteq> zeros25 ! 3 + LEARNING_RATE * (0 + DISCOUNT_FACTOR * Max (set next_values) - zeros25 ! 3)"
    unfolding n h5(1) h6 round64_08 LEARNING_RATE_value DISCOUNT_FACTOR_value by simp
  from h1 h2 h5(1) h6 u n1 n2 n3 show ?thesis by blast
qed

subsection \<open>The greedy action\<close>

text \<open>
  C4. For a non-empty entry \<open>v\<close> of the table, \<open>argmax v\<close> is an index of a maximal value
  and every index before it holds a smaller value, so it is the lowest index of the maximum;
  the entry \<open>[0, 5, 5, 0, ...]\<close> gives index 1. \<open>choose_action\<close> returns this index when
  it exploits, and \<open>ai_move\<close> plays the cell of this index: it leaves the game alone when
  the cell is occupied and otherwise puts the AI's mark there.
\<close>

theorem argmax_lowest_index_of_maximum:
  assumes "Q state = Some v" and "v \<noteq> []"
  shows "\<exists>i. argmax v = Inr i \<and> i < length v
           \<and> (\<forall>j<length v. v ! j \<le> v ! i) \<and> (\<forall>j<i. v ! j < v ! i)
           \<and> (\<not> uniform d < exploration_rate \<longrightarrow> choose_action Q state exploration_rate d = Inr i)
           \<and> (board_to_tuple (self_board g) = state \<longrightarrow>
                (\<forall>c. cell (self_board g) (i div BOARD_SIZE) (i mod BOARD_SIZE) = Inr c \<and> c \<noteq> '' '' \<longrightarrow>
                     ai_move Q g = Some (Returns g))
              \<and> (cell (self_board g) (i div BOARD_SIZE) (i mod BOARD_SIZE) = Inr '' '' \<longrightarrow>
                   ai_move Q g =
                     (case is_winner (self_board (place g (i div BOARD_SIZE) (i mod BOARD_SIZE) (self_ai_symbol g)))
                             (self_ai_symbol g) of
                        Inl e \<Rightarrow> Some (Raises e (place g (i div BOARD_SIZE) (i mod BOARD_SIZE) (self_ai_symbol g)))
                      | Inr w \<Rightarrow>
                          (if w then
                             end_game Q (place g (i div BOARD_SIZE) (i mod BOARD_SIZE) (self_ai_symbol g))
                               (''AI ('' @ self_ai_symbol g @ '') wins!'')
                           else if is_draw (self_board (place g (i div BOARD_SIZE) (i mod BOARD_SIZE)
                                                        (self_ai_symbol g))) then
                             end_game Q (place g (i div BOARD_SIZE) (i mod BOARD_SIZE) (self_ai_symbol g))
                               ''It's a draw!''
                           else
                             Some (Returns ((place g (i div BOARD_SIZE) (i mod BOARD_SIZE) (self_ai_symbol g))
                                            \<lparr>self_current_player := self_human_symbol g\<rparr>))))))
           \<and> argmax (0 # 5 # 5 # replicate 22 0) = Inr 1"
proof -
  from argmax_first_max [OF assms(2)] obtain i where
    i: "argmax v = Inr i" "i < length v" "\<forall>j<length v. v ! j \<le> v ! i" "\<forall>j<i. v ! j < v ! i"
    by blast
  have ex: "argmax (0 # 5 # 5 # replicate 22 0) = Inr 1"
    by (simp add: argmax_def eval_nat_numeral)
  have ch: "\<not> uniform d < exploration_rate \<longrightarrow> choose_action Q state exploration_rate d = Inr i"
    using assms(1) i(1) by (simp add: choose_action_def)
  have ai: "board_to_tuple (self_board g) = state \<longrightarrow>
                (\<forall>c. cell (self_board g) (i div BOARD_SIZE) (i mod BOARD_SIZE) = Inr c \<and> c \<noteq> '' '' \<longrightarrow>
                     ai_move Q g = Some (Returns g))
              \<and> (cell (self_board g) (i div BOARD_SIZE) (i mod BOARD_SIZE) = Inr '' '' \<longrightarrow>
                   ai_move Q g =
                     (case is_winner (self_board (place g (i div BOARD_SIZE) (i mod BOARD_SIZE) (self_ai_symbol g)))
                             (self_ai_symbol g) of
                        Inl e \<Rightarrow> Some (Raises e (place g (i div BOARD_SIZE) (i mod BOARD_SIZE) (self_ai_symbol g)))
                      | Inr w \<Rightarrow>
                          (if w then
                             end_game Q (place g (i div BOARD_SIZE) (i mod BOARD_SIZE) (self_ai_symbol g))
                               (''AI ('' @ self_ai_symbol g @ '') wins!'')
                           else if is_draw (self_board (place g (i div BOARD_SIZE) (i mod BOARD_SIZE)
                                                        (self_ai_symbol g))) then
                             end_game Q (place g (i div BOARD_SIZE) (i mod BOARD_SIZE) (self_ai_symbol g))
                               ''It's a draw!''
                           else
                             Some (Returns ((place g (i div BOARD_SIZE) (i mod BOARD_SIZE) (self_ai_symbol g))
                                            \<lparr>self_current_player := self_human_symbol g\<rparr>)))))"
    using assms(1) i(1) by (auto simp add: ai_move_unfold Let_def)
  from i ex ch ai show ?thesis by blast
qed

theorem argmax_lowest_index_of_maximum_witness:
  "tie_Q (board_to_tuple board_O0) = Some tie_values \<and> tie_values \<noteq> []
   \<and> argmax tie_values = Inr 1
   \<and> choose_action tie_Q (board_to_tuple board_O0) (1/10) \<lparr>uniform = 1/2, randint = 7\<rparr> = Inr 1
   \<and> ai_move tie_Q game_O0 = Some (Returns game_O0_X1)"
proof -
  have h1: "tie_Q (board_to_tuple board_O0) = Some tie_values" by (simp add: tie_Q_def)
  have h2: "tie_values \<noteq> []" by (simp add: tie_values_def)
  have am: "argmax tie_values = Inr 1" by (simp add: argmax_def tie_values_def)
  from argmax_lowest_index_of_maximum [where Q = tie_Q and state = "board_to_tuple board_O0"
      and v = tie_values and d = "\<lparr>uniform = 1/2, randint = 7\<rparr>" and exploration_rate = "1/10"
      and g = game_O0] h1 h2 am
  have "choose_action tie_Q (board_to_tuple board_O0) (1/10) \<lparr>uniform = 1/2, randint = 7\<rparr> = Inr 1"
    by auto
  with h1 h2 am ai_move_tie show ?thesis by simp
qed

subsection \<open>Lookups of the table\<close>

text \<open>
  C5 (the code differs). The claim: every lookup \<^verbatim>\<open>Q[state]\<close> meets a key that
  \<open>initialize_q_table\<close> has inserted, in training and in interactive play. In training this
  holds (lemma \<open>train_ai_never_raises\<close>). \<open>ai_move\<close> looks the current board up without
  inserting it, and training only inserts the empty board and boards that hold a mark of
  \<^verbatim>\<open>'O'\<close>, who moves first in every episode. So after any training run that returns, a
  human who plays \<^verbatim>\<open>'X'\<close>, starts, and clicks the first cell makes \<open>ai_move\<close> raise
  \<^verbatim>\<open>KeyError\<close>, with the human's mark on the board and the turn left with the AI.
\<close>

theorem ai_move_raises_KeyError_after_training:
  assumes "train_ai n ds initial_globals = Some (Inr (G, rest))"
  shows "new_game (g_Q G) ''X'' ''O'' True = Some (Returns game_X_start)
       \<and> make_move (g_Q G) game_X_start 0 0 = Some (Raises KeyError game_X0)"
proof -
  have "keys_from_training (g_Q initial_globals)"
    by (simp add: initial_globals_def keys_from_training_def)
  from train_ai_keys [OF this assms] have "g_Q G (board_to_tuple board_X0) = None"
    by (rule board_X0_not_trained)
  then have "make_move (g_Q G) game_X_start 0 0 = Some (Raises KeyError game_X0)"
    by (simp add: make_move_def ai_move_unfold game_X_start_def game_X0_def board_X0_def eval_board)
  moreover have "new_game (g_Q G) ''X'' ''O'' True = Some (Returns game_X_start)"
    by (simp add: new_game_def game_X_start_def empty_board_def)
  ultimately show ?thesis by simp
qed

theorem ai_move_raises_KeyError_after_training_witness:
  "\<exists>G. train_ai (Suc 0) example_draws initial_globals = Some (Inr (G, []))
       \<and> new_game (g_Q G) ''X'' ''O'' True = Some (Returns game_X_start)
       \<and> make_move (g_Q G) game_X_start 0 0 = Some (Raises KeyError game_X0)"
proof -
  from trained_example obtain G where
    G: "train_ai (Suc 0) example_draws initial_globals = Some (Inr (G, []))" by blast
  from ai_move_raises_KeyError_after_training [OF G] G show ?thesis by blast
qed

subsection \<open>Clicks of the human player\<close>

text \<open>What \<open>make_move\<close> does with a click on a cell of the board, in a game whose two
  symbols differ. When the cell is occupied or it is not the human's turn, it returns the
  game as it was (board, button texts, current player, messages shown). When the cell is
  empty and it is the human's turn, the human's mark is placed and one of three things
  follows, by the answers of \<open>is_winner\<close> and \<open>is_draw\<close> on the new board: one more
  message, that the player wins, and the reset game; or one more message, of a draw, and
  the reset game; or no message, the turn passes to the AI, and the result is that of
  \<open>ai_move\<close>, which returns or raises (lemma \<open>ai_move_unfold\<close>).\<close>

lemma make_move_cases:
  assumes "wf_board (self_board g)" and "row < BOARD_SIZE" and "col < BOARD_SIZE"
    and "self_human_symbol g \<noteq> self_ai_symbol g"
  shows "(self_board g ! row ! col \<noteq> '' '' \<or> self_current_player g \<noteq> self_human_symbol g \<longrightarrow>
            make_move Q g row col = Some (Returns g))
       \<and> (self_board g ! row ! col = '' '' \<and> self_current_player g = self_human_symbol g \<longrightarrow>
            (\<exists>w. is_winner (set_cell (self_board g) row col (self_human_symbol g)) (self_human_symbol g) = Inr w
               \<and> make_move Q g row col =
                   (if w then
                      Some (Returns
                        (g\<lparr>self_board := empty_board, self_buttons := empty_board,
                           self_current_player := self_human_symbol g,
                           shown := shown g @ [(''Game Over'', ''Player '' @ self_human_symbol g @ '' wins!'')]\<rparr>))
                    else if is_draw (set_cell (self_board g) row col (self_human_symbol g)) then
                      Some (Returns
                        (g\<lparr>self_board := empty_board, self_buttons := empty_board,
                           self_current_player := self_human_symbol g,
                           shown := shown g @ [(''Game Over'', ''It's a draw!'')]\<rparr>))
                    else
                      ai_move Q
                        (g\<lparr>self_board := set_cell (self_board g) row col (self_human_symbol g),
                           self_buttons := set_cell (self_buttons g) row col (self_human_symbol g),
                           self_current_player := self_ai_symbol g\<rparr>))))
       \<and> (\<exists>r. make_move Q g row col = Some r)"
proof -
  let ?g1 = "place g row col (self_human_symbol g)"
  have c: "cell (self_board g) row col = Inr (self_board g ! row ! col)"
    by (rule cell_wf [OF assms(1-3)])
  have b1: "self_board ?g1 = set_cell (self_board g) row col (self_human_symbol g)"
    by (simp add: place_def)
  have wf1: "wf_board (self_board ?g1)"
    using assms(1) by (simp add: place_def wf_board_set_cell)
  have sym: "self_human_symbol ?g1 = self_human_symbol g" "self_ai_symbol ?g1 = self_ai_symbol g"
    by (simp_all add: place_def)
  then have ne: "self_human_symbol ?g1 \<noteq> self_ai_symbol ?g1" using assms(4) by simp
  obtain w where w: "is_winner (self_board ?g1) (self_human_symbol g) = Inr w"
    using is_winner_value [OF wf1] by blast
  have cl: "clear (showinfo title message ?g1) =
              g\<lparr>self_board := empty_board, self_buttons := empty_board,
                self_current_player := self_human_symbol g,
                shown := shown g @ [(title, message)]\<rparr>" for title message
    by (simp add: clear_def showinfo_def place_def empty_board_def)
  have go: "?g1\<lparr>self_current_player := self_ai_symbol g\<rparr> =
              g\<lparr>self_board := set_cell (self_board g) row col (self_human_symbol g),
                self_buttons := set_cell (self_buttons g) row col (self_human_symbol g),
                self_current_player := self_ai_symbol g\<rparr>"
    by (simp add: place_def)
  have invalid: "self_board g ! row ! col \<noteq> '' '' \<or> self_current_player g \<noteq> self_human_symbol g \<longrightarrow>
            make_move Q g row col = Some (Returns g)"
    using c by (auto simp add: make_move_def)
  have valid: "self_board g ! row ! col = '' '' \<and> self_current_player g = self_human_symbol g \<longrightarrow>
     make_move Q g row col =
                   (if w then
                      Some (Returns (clear (showinfo ''Game Over''
                                       (''Player '' @ self_human_symbol g @ '' wins!'') ?g1)))
                    else if is_draw (self_board ?g1) then
                      Some (Returns (clear (showinfo ''Game Over'' ''It's a draw!'' ?g1)))
                    else
                      ai_move Q (?g1\<lparr>self_current_player := self_ai_symbol g\<rparr>))"
    using c w sym by (simp add: make_move_def Let_def end_game_distinct_symbols [OF ne])
  have "self_human_symbol (?g1\<lparr>self_current_player := self_ai_symbol g\<rparr>)
        \<noteq> self_ai_symbol (?g1\<lparr>self_current_player := self_ai_symbol g\<rparr>)"
    using ne sym by simp
  from ai_move_returns [OF this, of Q] obtain r where
    r: "ai_move Q (?g1\<lparr>self_current_player := self_ai_symbol g\<rparr>) = Some r" by blast
  have ends: "\<exists>r. make_move Q g row col = Some r"
  proof (cases "self_board g ! row ! col = '' '' \<and> self_current_player g = self_human_symbol g")
    case True
    with valid r show ?thesis by simp
  next
    case False
    with invalid show ?thesis by blast
  qed
  from invalid valid w ends show ?thesis unfolding cl go b1 by blast
qed

text \<open>The four cases on concrete games of a human who plays \<^verbatim>\<open>'X'\<close> or
  \<^verbatim>\<open>'O'\<close>: a click on an occupied cell; the click that completes the first row; the
  click that fills the board; and, in \<open>make_move_first_click\<close> and \<open>ai_move_tie\<close>, a
  click after which the AI answers.\<close>

lemma make_move_occupied_example: "make_move Q game_O0_X1 0 0 = Some (Returns game_O0_X1)"
  by (simp add: make_move_def game_O0_X1_def board_O0_X1_def eval_board)

lemma make_move_wins_example: "make_move Q game_X_to_win 0 4 = Some (Returns game_X_won)"
  by (simp add: make_move_def game_X_to_win_def game_X_won_def game_X_start_def board_X_to_win_def
      end_game_unfold reset_game_unfold clear_def showinfo_def Let_def eval_board replicate_5)

lemma make_move_draw_example: "make_move Q game_X_to_draw 4 4 = Some (Returns game_X_drawn)"
  by (simp add: make_move_def game_X_to_draw_def game_X_drawn_def game_X_start_def
      board_X_to_draw_def end_game_unfold reset_game_unfold clear_def showinfo_def Let_def eval_board
      replicate_5)

text \<open>
  C6 (the code differs). The claim: a click on an empty cell in the human's turn applies the
  mark and exactly one of continue, humanWins and draw results. The first half of the claim
  holds, and so does this half whenever the human wins or the board is full (lemma
  \<open>make_move_cases\<close>). In the remaining case \<open>make_move\<close> hands over to \<open>ai_move\<close>,
  which looks the board up in the table without inserting it. After any training run that
  returns, the first click of a human who plays \<^verbatim>\<open>'X'\<close> and starts is such a request:
  the cell is empty, it is the human's turn, the mark is applied, the human has not won
  and the board is not full; \<open>make_move\<close> does not return but raises \<^verbatim>\<open>KeyError\<close>,
  with no message shown, and the turn stays with the AI, which has not moved.
\<close>

theorem make_move_raises_KeyError_on_valid_click:
  assumes "train_ai n ds initial_globals = Some (Inr (G, rest))"
  shows "wf_board (self_board game_X_start)
       \<and> self_board game_X_start ! 0 ! 0 = '' ''
       \<and> self_current_player game_X_start = self_human_symbol game_X_start
       \<and> make_move (g_Q G) game_X_start 0 0 = Some (Raises KeyError game_X0)
       \<and> self_board game_X0 = set_cell (self_board game_X_start) 0 0 (self_human_symbol game_X_start)
       \<and> self_buttons game_X0 = set_cell (self_buttons game_X_start) 0 0 (self_human_symbol game_X_start)
       \<and> is_winner (self_board game_X0) (self_human_symbol game_X_start) = Inr False
       \<and> \<not> is_draw (self_board game_X0)
       \<and> shown game_X0 = []
       \<and> self_current_player game_X0 = self_ai_symbol game_X_start
       \<and> clicks (g_Q G) game_X_start ((0, 0) # cs) = Some game_X0"
proof -
  have "keys_from_training (g_Q initial_globals)"
    by (simp add: initial_globals_def keys_from_training_def)
  from train_ai_keys [OF this assms] have "g_Q G (board_to_tuple board_X0) = None"
    by (rule board_X0_not_trained)
  then have m: "make_move (g_Q G) game_X_start 0 0 = Some (Raises KeyError game_X0)"
    by (simp add: make_move_def ai_move_unfold game_X_start_def game_X0_def board_X0_def eval_board)
  have t: "self_current_player game_X0 \<noteq> self_human_symbol game_X0" by (simp add: game_X0_def)
  have c: "clicks (g_Q G) game_X_start ((0, 0) # cs) = Some game_X0"
    using m clicks_not_humans_turn [OF t, of "g_Q G" cs] by simp
  have "wf_board (self_board game_X_start)" by (simp add: game_X_start_def wf_board_empty)
  moreover have "self_board game_X_start ! 0 ! 0 = '' ''"
    by (simp add: game_X_start_def empty_board_eq)
  moreover have "self_current_player game_X_start = self_human_symbol game_X_start"
    by (simp add: game_X_start_def)
  moreover have "self_board game_X0 = set_cell (self_board game_X_start) 0 0 (self_human_symbol game_X_start)"
    by (simp add: game_X0_def game_X_start_def board_X0_def set_cell_def empty_board_eq)
  moreover have "self_buttons game_X0 = set_cell (self_buttons game_X_start) 0 0 (self_human_symbol game_X_start)"
    by (simp add: game_X0_def game_X_start_def board_X0_def set_cell_def empty_board_eq)
  moreover have "is_winner (self_board game_X0) (self_human_symbol game_X_start) = Inr False"
    by (simp add: game_X0_def game_X_start_def board_X0_def eval_board)
  moreover have "\<not> is_draw (self_board game_X0)"
    by (simp add: game_X0_def board_X0_def eval_board)
  moreover have "shown game_X0 = []" by (simp add: game_X0_def)
  moreover have "self_current_player game_X0 = self_ai_symbol game_X_start"
    by (simp add: game_X0_def game_X_start_def)
  ultimately show ?thesis using m c by blast
qed

theorem make_move_raises_KeyError_on_valid_click_witness:
  "\<exists>G. train_ai (Suc 0) example_draws initial_globals = Some (Inr (G, []))
       \<and> self_board game_X_start ! 0 ! 0 = '' ''
       \<and> self_current_player game_X_start = self_human_symbol game_X_start
       \<and> make_move (g_Q G) game_X_start 0 0 = Some (Raises KeyError game_X0)
       \<and> is_winner (self_board game_X0) ''X'' = Inr False
       \<and> \<not> is_draw (self_board game_X0)
       \<and> shown game_X0 = []
       \<and> clicks (g_Q G) game_X_start [(0, 0), (1, 1)] = Some game_X0"
proof -
  from trained_example obtain G where
    G: "train_ai (Suc 0) example_draws initial_globals = Some (Inr (G, []))" by blast
  have x: "self_human_symbol game_X_start = ''X''" by (simp add: game_X_start_def)
  from make_move_raises_KeyError_on_valid_click [OF G, of "[(1, 1)]"] G show ?thesis
    unfolding x by blast
qed

subsection \<open>Decay of the exploration rate\<close>

text \<open>
  C7 (amended). Whenever \<open>train_ai\<close> returns from \<open>n\<close> episodes, whatever random draws
  were consumed and however long the episodes were, it has also returned from the first
  \<open>k \<le> n\<close> of them, and the exploration rate after \<open>k\<close> episodes is the result of
  \<open>k\<close> successive float64 multiplications of the rate at the start by
  \<open>EXPLORATION_DECAY\<close>. Starting from a float64 number between 0 and 1, the rate never
  becomes negative, the rate after \<open>n\<close> episodes is at most the rate after \<open>k\<close>, and
  that is at most the rate at the start. The rate after \<open>k\<close> episodes is the rate at the
  start times \<open>0.995 ^ k\<close> up to rounding: as long as no product underflows it lies
  between the rate at the start times \<open>rate_lower ^ k\<close> and times \<open>rate_upper ^ k\<close>,
  where \<open>rate_lower\<close> and \<open>rate_upper\<close> are 0.995 with the relative rounding error
  \<open>1 / 2 ^ 53\<close> taken twice, down and up. For the program's constants the rate after
  1000 episodes lies between 0.00665 and 0.00666.
\<close>

theorem exploration_rate_decays_once_per_episode:
  assumes "train_ai n ds G = Some (Inr (G', rest))" and "k \<le> n"
  shows "\<exists>Gk rk. train_ai k ds G = Some (Inr (Gk, rk))
           \<and> g_EXPLORATION_RATE Gk = ((\<lambda>r. fmul r EXPLORATION_DECAY) ^^ k) (g_EXPLORATION_RATE G)
           \<and> (0 \<le> g_EXPLORATION_RATE G \<and> g_EXPLORATION_RATE G \<le> 1
                \<and> round64 (g_EXPLORATION_RATE G) = g_EXPLORATION_RATE G \<longrightarrow>
                  0 \<le> g_EXPLORATION_RATE G' \<and> g_EXPLORATION_RATE G' \<le> g_EXPLORATION_RATE Gk
                  \<and> g_EXPLORATION_RATE Gk \<le> g_EXPLORATION_RATE G)
           \<and> (0 \<le> g_EXPLORATION_RATE G \<and> g_EXPLORATION_RATE G \<le> 1
                \<and> 2 powi (- 1021) \<le> g_EXPLORATION_RATE G * rate_lower ^ k \<longrightarrow>
                  g_EXPLORATION_RATE G * rate_lower ^ k \<le> g_EXPLORATION_RATE Gk
                  \<and> g_EXPLORATION_RATE Gk \<le> g_EXPLORATION_RATE G * rate_upper ^ k)
           \<and> 0.00665 < ((\<lambda>r. fmul r EXPLORATION_DECAY) ^^ EPISODES) EXPLORATION_RATE
           \<and> ((\<lambda>r. fmul r EXPLORATION_DECAY) ^^ EPISODES) EXPLORATION_RATE < 0.00666"
proof -
  have d: "(\<lambda>r. fmul r EXPLORATION_DECAY) = decay" by (rule ext) (simp add: decay_def)
  from assms(2) obtain m where n: "n = k + m" using le_Suc_ex by blast
  from assms(1) obtain Gk rk where
    k: "train_ai k ds G = Some (Inr (Gk, rk))" and m: "train_ai m rk Gk = Some (Inr (G', rest))"
    unfolding n train_ai_add by (auto split: option.splits sum.splits prod.splits)
  have rk: "g_EXPLORATION_RATE Gk = (decay ^^ k) (g_EXPLORATION_RATE G)"
    by (rule train_ai_rate [OF k])
  have rn: "g_EXPLORATION_RATE G' = (decay ^^ (k + m)) (g_EXPLORATION_RATE G)"
    using train_ai_rate [OF assms(1)] by (simp add: n)
  have mono: "0 \<le> g_EXPLORATION_RATE G \<and> g_EXPLORATION_RATE G \<le> 1
                \<and> round64 (g_EXPLORATION_RATE G) = g_EXPLORATION_RATE G \<longrightarrow>
                  0 \<le> g_EXPLORATION_RATE G' \<and> g_EXPLORATION_RATE G' \<le> g_EXPLORATION_RATE Gk
                  \<and> g_EXPLORATION_RATE Gk \<le> g_EXPLORATION_RATE G"
  proof
    assume "0 \<le> g_EXPLORATION_RATE G \<and> g_EXPLORATION_RATE G \<le> 1
                \<and> round64 (g_EXPLORATION_RATE G) = g_EXPLORATION_RATE G"
    then have a: "0 \<le> g_EXPLORATION_RATE G" "g_EXPLORATION_RATE G \<le> 1"
      "round64 (g_EXPLORATION_RATE G) = g_EXPLORATION_RATE G" by simp_all
    have "0 \<le> g_EXPLORATION_RATE G'" unfolding rn using decay_funpow_props [OF a] by blast
    moreover have "g_EXPLORATION_RATE G' \<le> g_EXPLORATION_RATE Gk"
      unfolding rn rk by (rule decay_funpow_antimono [OF a])
    moreover have "g_EXPLORATION_RATE Gk \<le> g_EXPLORATION_RATE G"
      unfolding rk using decay_funpow_antimono [OF a, of 0 k] by simp
    ultimately show "0 \<le> g_EXPLORATION_RATE G' \<and> g_EXPLORATION_RATE G' \<le> g_EXPLORATION_RATE Gk
                  \<and> g_EXPLORATION_RATE Gk \<le> g_EXPLORATION_RATE G" by blast
  qed
  have close: "0 \<le> g_EXPLORATION_RATE G \<and> g_EXPLORATION_RATE G \<le> 1
                \<and> 2 powi (- 1021) \<le> g_EXPLORATION_RATE G * rate_lower ^ k \<longrightarrow>
                  g_EXPLORATION_RATE G * rate_lower ^ k \<le> g_EXPLORATION_RATE Gk
                  \<and> g_EXPLORATION_RATE Gk \<le> g_EXPLORATION_RATE G * rate_upper ^ k"
    unfolding rk using decay_funpow_bounds [of "g_EXPLORATION_RATE G" k] by blast
  from k rk mono close decayed_1000 show ?thesis unfolding d by blast
qed

theorem exploration_rate_decays_once_per_episode_witness:
  "\<exists>G. train_ai (Suc 0) example_draws initial_globals = Some (Inr (G, []))
       \<and> g_EXPLORATION_RATE initial_globals = 1
       \<and> round64 (g_EXPLORATION_RATE initial_globals) = g_EXPLORATION_RATE initial_globals
       \<and> 2 powi (- 1021) \<le> g_EXPLORATION_RATE initial_globals * rate_lower ^ Suc 0
       \<and> g_EXPLORATION_RATE G = 8962163258467287 / 9007199254740992
       \<and> 0 \<le> g_EXPLORATION_RATE G
       \<and> g_EXPLORATION_RATE G \<le> g_EXPLORATION_RATE initial_globals
       \<and> rate_lower \<le> g_EXPLORATION_RATE G \<and> g_EXPLORATION_RATE G \<le> rate_upper"
proof -
  from trained_example obtain G where
    G: "train_ai (Suc 0) example_draws initial_globals = Some (Inr (G, []))" by blast
  have i: "g_EXPLORATION_RATE initial_globals = 1"
    by (simp add: initial_globals_def EXPLORATION_RATE_one)
  have t: "(2::real) powi (- 1021) \<le> 1 * rate_lower ^ Suc 0"
    using two_powi_tiny rate_lower_upper by simp
  from exploration_rate_decays_once_per_episode [OF G, of "Suc 0"] G i t
  have r: "g_EXPLORATION_RATE G = fmul 1 EXPLORATION_DECAY"
    and b: "rate_lower \<le> g_EXPLORATION_RATE G" "g_EXPLORATION_RATE G \<le> rate_upper"
    by auto
  have z: "train_ai 0 example_draws initial_globals = Some (Inr (initial_globals, example_draws))"
    by simp
  from exploration_rate_decays_once_per_episode [OF G, of 0] z i
  have m: "0 \<le> g_EXPLORATION_RATE G" "g_EXPLORATION_RATE G \<le> g_EXPLORATION_RATE initial_globals"
    by auto
  have v: "fmul 1 EXPLORATION_DECAY = 8962163258467287 / 9007199254740992"
    by (simp add: fmul_def EXPLORATION_DECAY_value round64_eval [of "- 1"] round_even_def
        power_int_minus)
  from G i t r b m v show ?thesis by auto
qed

text \<open>The claim as it was stated fails twice. The rate after four episodes is
  \<^verbatim>\<open>0.9801495006250001\<close>: it is not the real number \<open>1.0 * 0.995 ^ 4\<close>, nor the
  float64 number nearest to it, \<^verbatim>\<open>0.980149500625\<close>, nor the exact fourth power of the
  float64 constant. And the value the claim gives for 1000 episodes, 0.00657, is not the
  rate to that precision: the rate does not round to 0.00657, and it is more than one
  percent away from it.\<close>

theorem exploration_rate_counterexample:
  "((\<lambda>r. fmul r EXPLORATION_DECAY) ^^ 4) EXPLORATION_RATE = 275887557861383 / 281474976710656
   \<and> ((\<lambda>r. fmul r EXPLORATION_DECAY) ^^ 4) EXPLORATION_RATE \<noteq> 1.0 * 0.995 ^ 4
   \<and> ((\<lambda>r. fmul r EXPLORATION_DECAY) ^^ 4) EXPLORATION_RATE \<noteq> round64 (0.995 ^ 4)
   \<and> ((\<lambda>r. fmul r EXPLORATION_DECAY) ^^ 4) EXPLORATION_RATE \<noteq> EXPLORATION_RATE * EXPLORATION_DECAY ^ 4
   \<and> \<not> (0.006565 \<le> ((\<lambda>r. fmul r EXPLORATION_DECAY) ^^ EPISODES) EXPLORATION_RATE
        \<and> ((\<lambda>r. fmul r EXPLORATION_DECAY) ^^ EPISODES) EXPLORATION_RATE < 0.006575)
   \<and> \<not> \<bar>((\<lambda>r. fmul r EXPLORATION_DECAY) ^^ EPISODES) EXPLORATION_RATE - 0.00657\<bar> \<le> 0.00657 / 100"
proof -
  have d: "(\<lambda>r. fmul r EXPLORATION_DECAY) = decay" by (rule ext) (simp add: decay_def)
  define y where "y = (decay ^^ 4) EXPLORATION_RATE"
  define x where "x = (decay ^^ EPISODES) EXPLORATION_RATE"
  have y: "y = 275887557861383 / 281474976710656"
    unfolding y_def EXPLORATION_RATE_one by (rule decay_4)
  have y1: "y \<noteq> 1.0 * 0.995 ^ 4" unfolding y power_4_decay by simp
  have y2: "y \<noteq> round64 (0.995 ^ 4)" unfolding y round64_decay_4 by simp
  have y3: "y \<noteq> EXPLORATION_RATE * EXPLORATION_DECAY ^ 4"
    unfolding y EXPLORATION_RATE_one EXPLORATION_DECAY_value by (simp add: power_divide)
  have "0.00665 < x" unfolding x_def using decayed_1000 by blast
  then have "\<not> (0.006565 \<le> x \<and> x < 0.006575) \<and> \<not> \<bar>x - 0.00657\<bar> \<le> 0.00657 / 100"
    by (simp add: abs_le_iff)
  with y y1 y2 y3 show ?thesis unfolding d x_def y_def by blast
qed

subsection \<open>The state codec\<close>

text \<open>
  C8. \<open>board_to_tuple\<close> is a total function of the board's contents alone, and it is
  injective: two boards have equal keys exactly when they have the same cells; encoding
  the same board twice gives the same key.
\<close>

theorem board_to_tuple_injective:
  "(board_to_tuple b1 = board_to_tuple b2) = (b1 = b2)"
  by (auto simp add: board_to_tuple_def inj_on_def dest!: map_injective)

subsection \<open>A greedy move into an occupied cell\<close>

text \<open>
  C9. When the entry of the current board sends \<open>ai_move\<close> to an occupied cell, \<open>ai_move\<close>
  returns the game unchanged. If it is the AI's turn, as it is at every call of \<open>ai_move\<close>,
  and the two symbols differ, every click is then rejected, and after any sequence of
  clicks the game is still the same.
\<close>

theorem ai_move_occupied_blocks_session:
  assumes "Q (board_to_tuple (self_board g)) = Some v" and "argmax v = Inr action"
    and "cell (self_board g) (action div BOARD_SIZE) (action mod BOARD_SIZE) = Inr c" and "c \<noteq> '' ''"
    and "self_current_player g = self_ai_symbol g" and "self_human_symbol g \<noteq> self_ai_symbol g"
  shows "ai_move Q g = Some (Returns g)
       \<and> (\<exists>r. make_move Q g row col = Some r \<and> state_of r = g)
       \<and> clicks Q g cs = Some g"
proof -
  have turn: "self_current_player g \<noteq> self_human_symbol g" using assms(5,6) by simp
  show ?thesis
    using ai_move_occupied [where Q = Q and g = g, OF assms(1-4)] make_move_not_humans_turn [OF turn]
      clicks_not_humans_turn [OF turn]
    by blast
qed

theorem ai_move_occupied_blocks_session_witness:
  "\<exists>G. train_ai (Suc 0) example_draws initial_globals = Some (Inr (G, []))
       \<and> g_Q G (board_to_tuple (self_board game_O0)) = Some zeros25
       \<and> argmax zeros25 = Inr 0
       \<and> cell (self_board game_O0) (0 div BOARD_SIZE) (0 mod BOARD_SIZE) = Inr ''O''
       \<and> self_current_player game_O0 = self_ai_symbol game_O0
       \<and> self_human_symbol game_O0 \<noteq> self_ai_symbol game_O0
       \<and> make_move (g_Q G) game_O_start 0 0 = Some (Returns game_O0)
       \<and> ai_move (g_Q G) game_O0 = Some (Returns game_O0)
       \<and> clicks (g_Q G) game_O0 [(1, 1), (0, 0), (4, 2)] = Some game_O0"
proof -
  from trained_example obtain G where
    G: "train_ai (Suc 0) example_draws initial_globals = Some (Inr (G, []))"
    and z: "g_Q G (board_to_tuple board_O0) = Some zeros25"
    by blast
  have h1: "g_Q G (board_to_tuple (self_board game_O0)) = Some zeros25"
    using z by (simp add: game_O0_def)
  have h2: "argmax zeros25 = Inr 0" by (simp add: argmax_def zeros25_def)
  have h3: "cell (self_board game_O0) (0 div BOARD_SIZE) (0 mod BOARD_SIZE) = Inr ''O''"
    by (simp add: game_O0_def board_O0_def cell_def)
  have h4: "''O'' \<noteq> '' ''" by simp
  have h5: "self_current_player game_O0 = self_ai_symbol game_O0" by (simp add: game_O0_def)
  have h6: "self_human_symbol game_O0 \<noteq> self_ai_symbol game_O0" by (simp add: game_O0_def)
  from ai_move_occupied_blocks_session [where Q = "g_Q G" and g = game_O0 and row = 0 and col = 0
      and cs = "[(1, 1), (0, 0), (4, 2)]", OF h1 h2 h3 h4 h5 h6]
  have stuck: "ai_move (g_Q G) game_O0 = Some (Returns game_O0)"
      "clicks (g_Q G) game_O0 [(1, 1), (0, 0), (4, 2)] = Some game_O0"
    by simp_all
  then have "make_move (g_Q G) game_O_start 0 0 = Some (Returns game_O0)"
    by (simp add: make_move_first_click)
  with G h1 h2 h3 h5 h6 stuck show ?thesis by blast
qed

subsection \<open>The shape of the table entries\<close>

text \<open>
  C10. Every entry of the Q-table is a vector of \<open>BOARD_SIZE * BOARD_SIZE\<close> values: this
  holds of the empty table and is kept by any sequence of calls of \<open>initialize_q_table\<close>
  and \<open>update_q_table\<close>. \<open>initialize_q_table\<close> only adds the zero vector of that length
  under a key that had no entry, and leaves every existing entry as it is;
  \<open>update_q_table\<close> replaces one component of one entry.
\<close>

theorem q_table_entries_keep_length:
  "table_ok Map.empty
   \<and> (table_ok Q0 \<longrightarrow> table_ok (foldl apply_q_op Q0 ops))
   \<and> (initialize_q_table Q b k = Some v \<longrightarrow>
        Q k = Some v \<or> (Q k = None \<and> k = board_to_tuple b \<and> v = replicate (BOARD_SIZE * BOARD_SIZE) 0))
   \<and> (Q k = Some v \<longrightarrow> initialize_q_table Q b k = Some v)
   \<and> (update_q_table Q s a r s' = Inr Q' \<longrightarrow>
        (\<exists>w x. Q s = Some w \<and> a < length w \<and> Q' = Q(s \<mapsto> w[a := x])))"
proof -
  have "update_q_table Q s a r s' = Inr Q' \<longrightarrow>
        (\<exists>w x. Q s = Some w \<and> a < length w \<and> Q' = Q(s \<mapsto> w[a := x]))"
    using update_q_table_Inr [of Q s a r s' Q'] by blast
  moreover have "table_ok Map.empty" by (simp add: table_ok_def)
  moreover have "table_ok Q0 \<longrightarrow> table_ok (foldl apply_q_op Q0 ops)"
    by (simp add: table_ok_foldl)
  moreover have "initialize_q_table Q b k = Some v \<longrightarrow>
        Q k = Some v \<or> (Q k = None \<and> k = board_to_tuple b \<and> v = replicate (BOARD_SIZE * BOARD_SIZE) 0)"
    by (auto simp add: initialize_q_table_lookup split: if_splits)
  moreover have "Q k = Some v \<longrightarrow> initialize_q_table Q b k = Some v"
    by (simp add: initialize_q_table_lookup)
  ultimately show ?thesis by blast
qed

theorem q_table_entries_keep_length_witness:
  "foldl apply_q_op Map.empty example_ops (board_to_tuple empty_board) = Some (zeros25[0 := LEARNING_RATE])
   \<and> length (zeros25[0 := LEARNING_RATE]) = BOARD_SIZE * BOARD_SIZE
   \<and> table_ok (foldl apply_q_op Map.empty example_ops)"
proof -
  have k: "board_to_tuple empty_board \<noteq> board_to_tuple board_O0"
    by (simp add: board_to_tuple_def empty_board_eq board_O0_def)
  have am: "argmax zeros25 = Inr 0" by (simp add: argmax_def zeros25_def)
  have "foldl apply_q_op Map.empty example_ops (board_to_tuple empty_board) = Some (zeros25[0 := LEARNING_RATE])"
    using k am
    by (simp add: example_ops_def initialize_q_table_def Let_def zeros25_eq update_q_table_def
        fadd_def fsub_def fmul_def round64_LEARNING_RATE)
       (simp add: zeros25_def round64_LEARNING_RATE)
  moreover have "length (zeros25[0 := LEARNING_RATE]) = BOARD_SIZE * BOARD_SIZE"
    by (simp add: zeros25_def BOARD_SIZE_def)
  moreover have "table_ok (foldl apply_q_op Map.empty example_ops)"
    using q_table_entries_keep_length [of Map.empty example_ops] by blast
  ultimately show ?thesis by blast
qed

end
